theory Spec2Isabelle
  imports Complex_Main "HOL-Library.Word" "HOL-Library.Multiset" "HOL-Library.While_Combinator"
begin

section \<open>Numbers of the Go program\<close>

text \<open>
  \<^verbatim>\<open>Camera.go\<close> computes with Go's \<^verbatim>\<open>int\<close>, \<^verbatim>\<open>byte\<close> and \<^verbatim>\<open>float64\<close>.

  \<^item> \<^verbatim>\<open>int\<close> is the 64-bit two's complement integer of the usual targets
    (amd64, arm64): a \<open>64 word\<close>, read with \<open>sint\<close>, compared with \<open><s\<close> and \<open>\<le>s\<close>;
    \<open>+\<close>, \<open>-\<close> and \<open>*\<close> wrap around as Go's do.
  \<^item> \<^verbatim>\<open>byte\<close> is an \<open>8 word\<close>.
  \<^item> \<^verbatim>\<open>float64\<close> is modelled by the extended reals of IEEE 754 with exact
    arithmetic: a finite value is a real number, and the special values
    \<open>+Inf\<close>, \<open>-Inf\<close> and \<open>NaN\<close> behave as in Go (\<open>1/0 = +Inf\<close>, \<open>0 * Inf = NaN\<close>,
    every comparison with \<open>NaN\<close> is false). Rounding to 53 bits, overflow of a
    finite result to an infinity and the sign of zero are not modelled.
\<close>

type_synonym goInt = "64 word"
type_synonym byte = "8 word"

datatype float64 = Fin real | PInf | NInf | NaN

definition minInt :: goInt where
  "minInt = word_of_int (- (2 ^ 63))"

text \<open>Go's integer quotient truncates towards zero; a zero divisor panics
  (the callers below test it before dividing).\<close>

definition quo :: "goInt \<Rightarrow> goInt \<Rightarrow> goInt" where
  "quo a b = word_of_int (sgn (sint a) * sgn (sint b) * (\<bar>sint a\<bar> div \<bar>sint b\<bar>))"


fun isNaN :: "float64 \<Rightarrow> bool" where
  "isNaN NaN = True"
| "isNaN (Fin r) = False"
| "isNaN PInf = False"
| "isNaN NInf = False"

fun fneg :: "float64 \<Rightarrow> float64" where
  "fneg (Fin a) = Fin (- a)"
| "fneg PInf = NInf"
| "fneg NInf = PInf"
| "fneg NaN = NaN"

fun fadd :: "float64 \<Rightarrow> float64 \<Rightarrow> float64" where
  "fadd (Fin a) (Fin b) = Fin (a + b)"
| "fadd (Fin a) PInf = PInf"
| "fadd (Fin a) NInf = NInf"
| "fadd PInf (Fin b) = PInf"
| "fadd NInf (Fin b) = NInf"
| "fadd PInf PInf = PInf"
| "fadd NInf NInf = NInf"
| "fadd PInf NInf = NaN"
| "fadd NInf PInf = NaN"
| "fadd NaN y = NaN"
| "fadd x NaN = NaN"

definition fsub :: "float64 \<Rightarrow> float64 \<Rightarrow> float64" where
  "fsub x y = fadd x (fneg y)"

text \<open>The infinity with the sign of a real that is not zero.\<close>

definition infOf :: "real \<Rightarrow> float64" where
  "infOf s = (if 0 < s then PInf else NInf)"

fun fmul :: "float64 \<Rightarrow> float64 \<Rightarrow> float64" where
  "fmul (Fin a) (Fin b) = Fin (a * b)"
| "fmul (Fin a) PInf = (if a = 0 then NaN else infOf a)"
| "fmul (Fin a) NInf = (if a = 0 then NaN else infOf (- a))"
| "fmul PInf (Fin b) = (if b = 0 then NaN else infOf b)"
| "fmul NInf (Fin b) = (if b = 0 then NaN else infOf (- b))"
| "fmul PInf PInf = PInf"
| "fmul NInf NInf = PInf"
| "fmul PInf NInf = NInf"
| "fmul NInf PInf = NInf"
| "fmul NaN y = NaN"
| "fmul x NaN = NaN"

fun fdiv :: "float64 \<Rightarrow> float64 \<Rightarrow> float64" where
  "fdiv (Fin a) (Fin b) =
     (if b = 0 then (if a = 0 then NaN else infOf a) else Fin (a / b))"
| "fdiv (Fin a) PInf = Fin 0"
| "fdiv (Fin a) NInf = Fin 0"
| "fdiv PInf (Fin b) = (if 0 \<le> b then PInf else NInf)"
| "fdiv NInf (Fin b) = (if 0 \<le> b then NInf else PInf)"
| "fdiv PInf PInf = NaN"
| "fdiv NInf NInf = NaN"
| "fdiv PInf NInf = NaN"
| "fdiv NInf PInf = NaN"
| "fdiv NaN y = NaN"
| "fdiv x NaN = NaN"

text \<open>\<^verbatim>\<open>math.Abs\<close>, \<^verbatim>\<open>math.Sqrt\<close>, \<^verbatim>\<open>math.Floor\<close>, \<^verbatim>\<open>math.Cos\<close>, \<^verbatim>\<open>math.Sin\<close>.\<close>

fun fabs :: "float64 \<Rightarrow> float64" where
  "fabs (Fin a) = Fin \<bar>a\<bar>"
| "fabs PInf = PInf"
| "fabs NInf = PInf"
| "fabs NaN = NaN"

fun fsqrt :: "float64 \<Rightarrow> float64" where
  "fsqrt (Fin a) = (if a < 0 then NaN else Fin (sqrt a))"
| "fsqrt PInf = PInf"
| "fsqrt NInf = NaN"
| "fsqrt NaN = NaN"

fun ffloor :: "float64 \<Rightarrow> float64" where
  "ffloor (Fin a) = Fin (of_int \<lfloor>a\<rfloor>)"
| "ffloor PInf = PInf"
| "ffloor NInf = NInf"
| "ffloor NaN = NaN"



text \<open>The comparisons \<^verbatim>\<open><\<close> and \<^verbatim>\<open><=\<close> of Go on \<^verbatim>\<open>float64\<close>; \<^verbatim>\<open>x > y\<close> is
  \<open>flt y x\<close>.\<close>

fun flt :: "float64 \<Rightarrow> float64 \<Rightarrow> bool" where
  "flt (Fin a) (Fin b) = (a < b)"
| "flt (Fin a) PInf = True"
| "flt NInf (Fin b) = True"
| "flt NInf PInf = True"
| "flt (Fin a) NInf = False"
| "flt PInf y = False"
| "flt NInf NInf = False"
| "flt NaN y = False"
| "flt x NaN = False"

fun fle :: "float64 \<Rightarrow> float64 \<Rightarrow> bool" where
  "fle (Fin a) (Fin b) = (a \<le> b)"
| "fle (Fin a) PInf = True"
| "fle NInf (Fin b) = True"
| "fle NInf PInf = True"
| "fle NInf NInf = True"
| "fle PInf PInf = True"
| "fle (Fin a) NInf = False"
| "fle PInf (Fin b) = False"
| "fle PInf NInf = False"
| "fle NaN y = False"
| "fle x NaN = False"

text \<open>
  The conversion \<^verbatim>\<open>int(x)\<close> of a \<^verbatim>\<open>float64\<close> drops the fraction (truncation towards
  zero). When the value does not fit the conversion still succeeds and Go leaves the
  result to the implementation; amd64 yields the most negative integer, which is what
  \<open>toInt\<close> returns. No theorem below depends on that choice except through the
  concrete evaluations, whose values all fit.
\<close>

definition truncR :: "real \<Rightarrow> int" where
  "truncR r = (if 0 \<le> r then \<lfloor>r\<rfloor> else \<lceil>r\<rceil>)"

fun toInt :: "float64 \<Rightarrow> goInt" where
  "toInt (Fin r) =
     (if - (2 ^ 63) \<le> truncR r \<and> truncR r < 2 ^ 63 then word_of_int (truncR r) else minInt)"
| "toInt PInf = minInt"
| "toInt NInf = minInt"
| "toInt NaN = minInt"

text \<open>\<^verbatim>\<open>float64(i)\<close> for an \<^verbatim>\<open>int\<close> and for a \<^verbatim>\<open>byte\<close>.\<close>

definition ofInt :: "goInt \<Rightarrow> float64" where
  "ofInt i = Fin (of_int (sint i))"

definition ofByte :: "byte \<Rightarrow> float64" where
  "ofByte b = Fin (of_nat (unat b))"

text \<open>\<^verbatim>\<open>byte(i)\<close> for an \<^verbatim>\<open>int\<close> keeps the low eight bits.\<close>

definition toByte :: "goInt \<Rightarrow> byte" where
  "toByte i = ucast i"

section \<open>Lighting model\<close>

text \<open>
  \<^verbatim>\<open>func Clamp(value int, min int, max int) int\<close> (lines 718-726).
\<close>

definition Clamp :: "goInt \<Rightarrow> goInt \<Rightarrow> goInt \<Rightarrow> goInt" where
  "Clamp v lo hi = (if v <s lo then lo else if hi <s v then hi else v)"

text \<open>
  The three casters carry the same lines (400-410, 482-486, 562-565 with 619-622):
  \<^verbatim>\<open>shadowDepth = math.Sqrt(distance) * lightFalloff\<close> and, for each of the channels
  R, G and B, \<^verbatim>\<open>byte(Clamp(int(float64(channel)+shadowDepth+sunLight), 0, 255))\<close>.
  \<open>shadeLevel\<close> is the clamped integer, \<open>shade\<close> the byte stored in the tint.
\<close>

definition lightFalloff :: float64 where
  "lightFalloff = Fin (- 100)"

definition sunLight :: float64 where
  "sunLight = Fin 300"

definition shadowDepth :: "float64 \<Rightarrow> float64" where
  "shadowDepth distance = fmul (fsqrt distance) lightFalloff"

definition shadeLevel :: "byte \<Rightarrow> float64 \<Rightarrow> goInt" where
  "shadeLevel channel distance =
     Clamp (toInt (fadd (fadd (ofByte channel) (shadowDepth distance)) sunLight)) 0 255"

definition shade :: "byte \<Rightarrow> float64 \<Rightarrow> byte" where
  "shade channel distance = toByte (shadeLevel channel distance)"

section \<open>Data of the camera\<close>

text \<open>
  A run-time panic of Go is a value: every function below that can index a slice out
  of range, divide an integer by zero or follow a nil pointer returns
  \<open>panic + result\<close>.
\<close>

datatype panic = IndexOutOfRange | DivideByZero | NilDereference

definition bindP :: "panic + 'a \<Rightarrow> ('a \<Rightarrow> panic + 'b) \<Rightarrow> panic + 'b" where
  "bindP r k = (case r of Inl e \<Rightarrow> Inl e | Inr v \<Rightarrow> k v)"

text \<open>\<^verbatim>\<open>xs[i]\<close> read and written, and \<^verbatim>\<open>grid[i][j]\<close>.\<close>

definition inRange :: "'a list \<Rightarrow> goInt \<Rightarrow> bool" where
  "inRange xs i = (0 \<le> sint i \<and> sint i < int (length xs))"

definition index :: "'a list \<Rightarrow> goInt \<Rightarrow> panic + 'a" where
  "index xs i = (if inRange xs i then Inr (xs ! nat (sint i)) else Inl IndexOutOfRange)"

definition store :: "'a list \<Rightarrow> goInt \<Rightarrow> 'a \<Rightarrow> panic + 'a list" where
  "store xs i v = (if inRange xs i then Inr (xs[nat (sint i) := v]) else Inl IndexOutOfRange)"

definition index2 :: "'a list list \<Rightarrow> goInt \<Rightarrow> goInt \<Rightarrow> panic + 'a" where
  "index2 grid i j = bindP (index grid i) (\<lambda>row. index row j)"

text \<open>\<^verbatim>\<open>type Vector2 struct { X float64; Y float64 }\<close> (lines 84-87).\<close>

record Vector2 =
  X :: float64
  Y :: float64

text \<open>
  \<^verbatim>\<open>color.RGBA\<close> and \<^verbatim>\<open>image.Rectangle\<close> of Go's standard library; the corners
  \<^verbatim>\<open>Min\<close> and \<^verbatim>\<open>Max\<close> of a rectangle are flattened into four fields.
\<close>

record RGBA =
  R :: byte
  G :: byte
  B :: byte
  A :: byte

record Rectangle =
  MinX :: goInt
  MinY :: goInt
  MaxX :: goInt
  MaxY :: goInt

text \<open>
  Modelled from the spec: the types \<^verbatim>\<open>Level\<close> and \<^verbatim>\<open>Sprite\<close>, the texture handle
  \<^verbatim>\<open>*ebiten.Image\<close> and the constructors \<^verbatim>\<open>SliceView\<close> and \<^verbatim>\<open>MakeSlices\<close> are
  declared in files of the repository other than \<^verbatim>\<open>Camera.go\<close>. A Level is "per-column
  arrays, each sized to viewport width: current texture-slice rectangle, slice-view
  rectangle, tint color, current texture reference"; \<^verbatim>\<open>Camera.go\<close> names the four
  arrays \<^verbatim>\<open>Cts\<close>, \<^verbatim>\<open>Sv\<close>, \<^verbatim>\<open>St\<close> and \<^verbatim>\<open>CurrTex\<close>. A pointer that may be nil is
  an \<open>option\<close>. A texture is known by an identifier and its size; a sprite has a
  position and a texture. \<^verbatim>\<open>SliceView(w, h)\<close> yields one screen rectangle per column and
  \<^verbatim>\<open>MakeSlices(w, h)\<close> one texture rectangle per texture column ("count = sprite
  texture width, each representing one vertical texture stripe").
\<close>

record Image =
  texId :: nat
  texW :: goInt
  texH :: goInt

record Level =
  Sv :: "Rectangle list"
  Cts :: "Rectangle option list"
  St :: "RGBA option list"
  CurrTex :: "Image option list"

record Sprite =
  spritePos :: Vector2
  spriteTexture :: Image

definition SliceView :: "goInt \<Rightarrow> goInt \<Rightarrow> Rectangle list" where
  "SliceView width height =
     map (\<lambda>x. \<lparr>MinX = word_of_nat x, MinY = 0, MaxX = word_of_nat x + 1, MaxY = height\<rparr>)
       [0 ..< nat (sint width)]"

definition MakeSlices :: "goInt \<Rightarrow> goInt \<Rightarrow> Rectangle list" where
  "MakeSlices width height =
     map (\<lambda>x. \<lparr>MinX = word_of_nat x, MinY = 0, MaxX = word_of_nat x + 1, MaxY = height\<rparr>)
       [0 ..< nat (sint width)]"

text \<open>
  \<^verbatim>\<open>type Camera struct\<close> (lines 30-81), without the map object, the floor level and
  the semaphore, which the functions modelled here do not read. \<^verbatim>\<open>Textures\<close> is the
  slice \<^verbatim>\<open>c.tex.Textures\<close>.
\<close>

record Camera =
  pos :: Vector2
  dir :: Vector2
  plane :: Vector2
  w :: goInt
  h :: goInt
  targetTPS :: goInt
  worldMap :: "goInt list list"
  upMap :: "goInt list list"
  midMap :: "goInt list list"
  texWidth :: goInt
  s :: "Rectangle list"
  camX :: "float64 list"
  camY :: "float64 list"
  lvls :: "Level list"
  zBuffer :: "float64 list"
  sprite :: "Sprite list"
  spriteOrder :: "goInt list"
  spriteDistance :: "float64 list"
  spriteLvls :: "Level option list"
  Textures :: "Image list"

text \<open>\<^verbatim>\<open>preCalcCamX\<close> (lines 155-160): \<^verbatim>\<open>c.camX[x] = 2.0*float64(x)/float64(c.w) - 1.0\<close>
  for \<open>0 \<le> x < c.w\<close>.\<close>

definition preCalcCamX :: "Camera \<Rightarrow> Camera" where
  "preCalcCamX c =
     c\<lparr>camX := map (\<lambda>x. fsub (fdiv (fmul (Fin 2) (Fin (of_nat x))) (ofInt (w c))) (Fin 1))
                   [0 ..< nat (sint (w c))]\<rparr>"

section \<open>Wall caster\<close>

subsection \<open>The ray and the DDA loop (lines 237-318)\<close>

text \<open>Lines 238-240: the ray through column \<open>x\<close>.\<close>

definition rayDir :: "Camera \<Rightarrow> goInt \<Rightarrow> panic + float64 \<times> float64" where
  "rayDir c x =
     bindP (index (camX c) x) (\<lambda>cameraX.
       Inr (fadd (X (dir c)) (fmul (X (plane c)) cameraX),
            fadd (Y (dir c)) (fmul (Y (plane c)) cameraX)))"

text \<open>
  The variables of the loop. \<open>hit\<close> is 0 while the ray travels, 1 on a wall and 2 on
  the boundary of the grid; \<open>side\<close> is -1 before the first step, 0 after a step in x
  and 1 after a step in y.
\<close>

record ddaState =
  mapX :: goInt
  mapY :: goInt
  sideDistX :: float64
  sideDistY :: float64
  hit :: goInt
  side :: goInt

text \<open>Lines 255-256: \<^verbatim>\<open>math.Abs(1 / rayDir)\<close>.\<close>

definition deltaDist :: "float64 \<Rightarrow> float64" where
  "deltaDist rayD = fabs (fdiv (Fin 1) rayD)"

text \<open>Lines 267-281: the step (+1 or -1) and the first side distance of one axis.\<close>

definition stepOf :: "float64 \<Rightarrow> goInt" where
  "stepOf rayD = (if flt rayD (Fin 0) then - 1 else 1)"

definition sideDist0 :: "float64 \<Rightarrow> float64 \<Rightarrow> goInt \<Rightarrow> float64" where
  "sideDist0 rayD rayPos mapC =
     (if flt rayD (Fin 0)
      then fmul (fsub rayPos (ofInt mapC)) (deltaDist rayD)
      else fmul (fsub (fadd (ofInt mapC) (Fin 1)) rayPos) (deltaDist rayD))"

text \<open>Lines 243-281: the state in which the loop starts.\<close>

definition ddaInit :: "Vector2 \<Rightarrow> float64 \<Rightarrow> float64 \<Rightarrow> ddaState" where
  "ddaInit rayPos rayDirX rayDirY =
     \<lparr>mapX = toInt (X rayPos), mapY = toInt (Y rayPos),
      sideDistX = sideDist0 rayDirX (X rayPos) (toInt (X rayPos)),
      sideDistY = sideDist0 rayDirY (Y rayPos) (toInt (Y rayPos)),
      hit = 0, side = - 1\<rparr>"

text \<open>Lines 286-294: jump to the next map square in x or in y.\<close>

definition ddaAdvance :: "float64 \<Rightarrow> float64 \<Rightarrow> goInt \<Rightarrow> goInt \<Rightarrow> ddaState \<Rightarrow> ddaState" where
  "ddaAdvance deltaDistX deltaDistY stepX stepY st =
     (if flt (sideDistX st) (sideDistY st)
      then st\<lparr>sideDistX := fadd (sideDistX st) deltaDistX, mapX := mapX st + stepX, side := 0\<rparr>
      else st\<lparr>sideDistY := fadd (sideDistY st) deltaDistY, mapY := mapY st + stepY, side := 1\<rparr>)"

text \<open>Lines 306-316: the coordinate forced into \<open>[0, 23]\<close> on a boundary hit.\<close>

definition clampCell :: "goInt \<Rightarrow> goInt" where
  "clampCell m = (if m <s 0 then 0 else if 23 <s m then 23 else m)"

text \<open>Lines 297-317: the test of the square the ray has entered.\<close>

definition ddaCheck :: "goInt list list \<Rightarrow> ddaState \<Rightarrow> panic + ddaState" where
  "ddaCheck grid st =
     (if mapX st <s 24 \<and> mapY st <s 24 \<and> 0 <s mapX st \<and> 0 <s mapY st
      then bindP (index2 grid (mapX st) (mapY st)) (\<lambda>cell.
             Inr (if 0 <s cell then st\<lparr>hit := 1\<rparr> else st))
      else Inr (st\<lparr>hit := 2, mapX := clampCell (mapX st), mapY := clampCell (mapY st)\<rparr>))"

definition ddaStep ::
  "goInt list list \<Rightarrow> float64 \<Rightarrow> float64 \<Rightarrow> goInt \<Rightarrow> goInt \<Rightarrow> ddaState \<Rightarrow> panic + ddaState" where
  "ddaStep grid deltaDistX deltaDistY stepX stepY st =
     ddaCheck grid (ddaAdvance deltaDistX deltaDistY stepX stepY st)"

text \<open>
  Line 284, \<^verbatim>\<open>for hit == 0 { ... }\<close>: the loop runs while no panic has been raised and
  \<open>hit\<close> is 0. \<open>while_option\<close> is \<open>None\<close> when the loop never exits.
\<close>

definition ddaRunning :: "panic + ddaState \<Rightarrow> bool" where
  "ddaRunning r = (case r of Inl e \<Rightarrow> False | Inr st \<Rightarrow> hit st = 0)"

definition ddaLoop ::
  "goInt list list \<Rightarrow> float64 \<Rightarrow> float64 \<Rightarrow> goInt \<Rightarrow> goInt \<Rightarrow> ddaState
     \<Rightarrow> (panic + ddaState) option" where
  "ddaLoop grid deltaDistX deltaDistY stepX stepY st =
     while_option ddaRunning
       (\<lambda>r. bindP r (ddaStep grid deltaDistX deltaDistY stepX stepY)) (Inr st)"

subsection \<open>Perpendicular distance (lines 320-325)\<close>

definition perpDist :: "goInt \<Rightarrow> float64 \<Rightarrow> goInt \<Rightarrow> float64 \<Rightarrow> float64" where
  "perpDist mapC rayPos stepC rayD =
     fdiv (fadd (fsub (ofInt mapC) rayPos) (fdiv (fsub (Fin 1) (ofInt stepC)) (Fin 2))) rayD"

text \<open>What the traversal of one ray yields: the cell, \<open>hit\<close>, \<open>side\<close> and the
  perpendicular distance.\<close>

record rayHit =
  hitX :: goInt
  hitY :: goInt
  hitKind :: goInt
  hitSide :: goInt
  perpWallDist :: float64

text \<open>Lines 242-325 for a ray from \<open>rayPos\<close> in direction \<open>(rayDirX, rayDirY)\<close>.\<close>

definition castRay ::
  "goInt list list \<Rightarrow> Vector2 \<Rightarrow> float64 \<Rightarrow> float64 \<Rightarrow> (panic + rayHit) option" where
  "castRay grid rayPos rayDirX rayDirY =
     map_option
       (\<lambda>r. bindP r (\<lambda>st. Inr
          \<lparr>hitX = mapX st, hitY = mapY st, hitKind = hit st, hitSide = side st,
           perpWallDist =
             (if side st = 0
              then perpDist (mapX st) (X rayPos) (stepOf rayDirX) rayDirX
              else perpDist (mapY st) (Y rayPos) (stepOf rayDirY) rayDirY)\<rparr>))
       (ddaLoop grid (deltaDist rayDirX) (deltaDist rayDirY) (stepOf rayDirX) (stepOf rayDirY)
          (ddaInit rayPos rayDirX rayDirY))"

text \<open>Lines 237-325 for column \<open>x\<close> of the camera: the ray, the traversal and the
  distance.\<close>

definition castColumn :: "Camera \<Rightarrow> goInt \<Rightarrow> goInt list list \<Rightarrow> (panic + rayHit) option" where
  "castColumn c x grid =
     (case rayDir c x of
        Inl e \<Rightarrow> Some (Inl e)
      | Inr (rayDirX, rayDirY) \<Rightarrow> castRay grid (pos c) rayDirX rayDirY)"

subsection \<open>Projection, texture and tint (lines 327-410)\<close>

text \<open>Lines 328-332. \<^verbatim>\<open>-lineHeight/2\<close> negates first and divides second.\<close>

definition lineHeightOf :: "goInt \<Rightarrow> float64 \<Rightarrow> goInt" where
  "lineHeightOf height pdist = toInt (fdiv (ofInt height) pdist)"

definition drawStartOf :: "goInt \<Rightarrow> goInt \<Rightarrow> goInt \<Rightarrow> goInt" where
  "drawStartOf lineHeight height levelNum =
     (quo (- lineHeight) 2 + quo height 2) - lineHeight * levelNum"

text \<open>
  Lines 345-357, the two \<^verbatim>\<open>if\<close> statements applied in turn when \<open>side\<close> is 0:
  \<^verbatim>\<open>if texNum == 3 { texNum = 4 } else if texNum == 4 { texNum = 3 }\<close>, then
  \<^verbatim>\<open>if texNum == 1 { texNum = 4 } else if texNum == 2 { texNum = 3 }\<close>.
\<close>

definition remapTex :: "goInt \<Rightarrow> goInt" where
  "remapTex texNum =
     (let t = (if texNum = 3 then 4 else if texNum = 4 then 3 else texNum)
      in if t = 1 then 4 else if t = 2 then 3 else t)"

text \<open>Lines 339-357: the texture number of the cell that was hit.\<close>

definition texNumOf :: "goInt list list \<Rightarrow> goInt \<Rightarrow> goInt \<Rightarrow> goInt \<Rightarrow> panic + goInt" where
  "texNumOf grid mx my sd =
     bindP (index2 grid mx my) (\<lambda>cell.
       let texNum = cell - 1;
           texNum = (if texNum <s 0 then 0 else texNum)
       in Inr (if sd = 0 then remapTex texNum else texNum))"

text \<open>Lines 361-368: where exactly the wall was hit.\<close>

definition wallXOf :: "Vector2 \<Rightarrow> float64 \<Rightarrow> float64 \<Rightarrow> goInt \<Rightarrow> float64 \<Rightarrow> float64" where
  "wallXOf rayPos rayDirX rayDirY sd pdist =
     (let wx = (if sd = 0 then fadd (Y rayPos) (fmul pdist rayDirY)
                else fadd (X rayPos) (fmul pdist rayDirX))
      in fsub wx (ffloor wx))"

text \<open>Lines 371-378: the x coordinate on the texture.\<close>

definition texXOf :: "goInt \<Rightarrow> float64 \<Rightarrow> float64 \<Rightarrow> goInt \<Rightarrow> float64 \<Rightarrow> goInt" where
  "texXOf tw rayDirX rayDirY sd wallX =
     (let texX = toInt (fmul wallX (ofInt tw));
          texX = (if sd = 0 \<and> flt (Fin 0) rayDirX then tw - texX - 1 else texX)
      in if sd = 1 \<and> flt rayDirY (Fin 0) then tw - texX - 1 else texX)"

text \<open>Lines 390-410: white, less 12 on a y side, then shaded by the distance.\<close>

definition wallTint :: "goInt \<Rightarrow> float64 \<Rightarrow> RGBA" where
  "wallTint sd pdist =
     (let base = (if sd = 1 then 255 - toByte 12 else 255)
      in \<lparr>R = shade base pdist, G = shade base pdist, B = shade base pdist, A = 255\<rparr>)"

subsection \<open>\<^verbatim>\<open>castLevel\<close> (lines 229-500)\<close>

text \<open>
  \<^verbatim>\<open>castLevel(x, grid, lvl, levelNum, wg)\<close> is only called as
  \<^verbatim>\<open>c.castLevel(x, rMap, c.lvls[levelNum], levelNum, wg)\<close> (line 212), so \<open>lvl\<close> is
  the level \<open>levelNum\<close> of the camera, and the function writes column \<open>x\<close> of that
  level and, on level 0, of the depth buffer. The result is \<open>None\<close> if the DDA loop
  does not exit and \<open>Some (Inl e)\<close> if an index is out of range. The floor caster
  that \<^verbatim>\<open>castLevel\<close> starts as a goroutine on level 0 (lines 419-499) writes only the
  pixel buffer of the floor level, which this model does not hold.
\<close>

definition writeColumn ::
  "Camera \<Rightarrow> goInt \<Rightarrow> goInt \<Rightarrow> Image \<Rightarrow> Rectangle \<Rightarrow> goInt \<Rightarrow> goInt \<Rightarrow> RGBA \<Rightarrow> float64
     \<Rightarrow> panic + Camera" where
  "writeColumn c x levelNum tex strip drawStart drawEnd tint pdist =
     bindP (index (lvls c) levelNum) (\<lambda>lvl.
     bindP (store (CurrTex lvl) x (Some tex)) (\<lambda>currTex.
     bindP (store (Cts lvl) x (Some strip)) (\<lambda>cts.
     bindP (index (Sv lvl) x) (\<lambda>view.
     bindP (store (Sv lvl) x (view\<lparr>MinY := drawStart, MaxY := drawEnd\<rparr>)) (\<lambda>sv.
     bindP (store (St lvl) x (Some tint)) (\<lambda>st.
     bindP (store (lvls c) levelNum (lvl\<lparr>Sv := sv, Cts := cts, St := st, CurrTex := currTex\<rparr>))
       (\<lambda>ls.
     if levelNum = 0
     then bindP (store (zBuffer c) x pdist) (\<lambda>zb. Inr (c\<lparr>lvls := ls, zBuffer := zb\<rparr>))
     else Inr (c\<lparr>lvls := ls\<rparr>))))))))"

definition castLevel :: "Camera \<Rightarrow> goInt \<Rightarrow> goInt list list \<Rightarrow> goInt \<Rightarrow> (panic + Camera) option" where
  "castLevel c x grid levelNum =
     (case rayDir c x of
        Inl e \<Rightarrow> Some (Inl e)
      | Inr (rayDirX, rayDirY) \<Rightarrow>
          map_option (\<lambda>r. bindP r (\<lambda>wall.
            let pdist = perpWallDist wall;
                lineHeight = lineHeightOf (h c) pdist;
                drawStart = drawStartOf lineHeight (h c) levelNum;
                drawEnd = drawStart + lineHeight
            in bindP (texNumOf grid (hitX wall) (hitY wall) (hitSide wall)) (\<lambda>texNum.
               bindP (index (Textures c) texNum) (\<lambda>tex.
               let wallX = wallXOf (pos c) rayDirX rayDirY (hitSide wall) pdist;
                   texX = texXOf (texWidth c) rayDirX rayDirY (hitSide wall) wallX
               in bindP (index (s c) texX) (\<lambda>strip.
                  writeColumn c x levelNum tex strip drawStart drawEnd
                    (wallTint (hitSide wall) pdist) pdist)))))
            (castRay grid (pos c) rayDirX rayDirY))"

section \<open>Sprite caster (lines 502-645)\<close>

text \<open>Go's \<^verbatim>\<open>a / b\<close> on \<^verbatim>\<open>int\<close>: a panic when \<open>b\<close> is zero.\<close>

definition divP :: "goInt \<Rightarrow> goInt \<Rightarrow> panic + goInt" where
  "divP a b = (if b = 0 then Inl DivideByZero else Inr (quo a b))"

text \<open>
  Lines 506-556: the projection of the sprite with order index \<open>idx\<close>, computed
  once before the loop over the stripes. \<open>uDiv\<close> and \<open>vDiv\<close> are 1 and \<open>vMove\<close> is 0.
\<close>

record spriteProj =
  transformY :: float64
  spriteScreenX :: goInt
  vMoveScreen :: goInt
  spriteHeight :: goInt
  drawStartY :: goInt
  drawEndY :: goInt
  spriteWidth :: goInt
  drawStartX :: goInt
  drawEndX :: goInt
  spriteTex :: Image

definition projectSprite :: "Camera \<Rightarrow> goInt \<Rightarrow> panic + spriteProj" where
  "projectSprite c idx =
     bindP (index (spriteOrder c) idx) (\<lambda>k.
     bindP (index (sprite c) k) (\<lambda>sp.
     let rayPosX = X (pos c);
         rayPosY = Y (pos c);
         spriteX = fsub (X (spritePos sp)) rayPosX;
         spriteY = fsub (Y (spritePos sp)) rayPosY;
         invDet = fdiv (Fin 1)
           (fsub (fmul (X (plane c)) (Y (dir c))) (fmul (X (dir c)) (Y (plane c))));
         transformX = fmul invDet
           (fsub (fmul (Y (dir c)) spriteX) (fmul (X (dir c)) spriteY));
         tY = fmul invDet
           (fadd (fmul (fneg (Y (plane c))) spriteX) (fmul (X (plane c)) spriteY));
         screenX = toInt (fmul (fdiv (ofInt (w c)) (Fin 2))
           (fadd (Fin 1) (fdiv transformX tY)));
         vms = toInt (fdiv (Fin 0) tY);
         sh = toInt (fdiv (fabs (fdiv (ofInt (h c)) tY)) (Fin 1));
         startY = quo (- sh) 2 + quo (h c) 2 + vms;
         startY = (if startY <s 0 then 0 else startY);
         endY = quo sh 2 + quo (h c) 2 + vms;
         endY = (if h c \<le>s endY then h c - 1 else endY);
         sw = toInt (fdiv (fabs (fdiv (ofInt (h c)) tY)) (Fin 1));
         startX = quo (- sw) 2 + screenX;
         endX = quo sw 2 + screenX;
         startX = (if startX <s 0 then 0 else startX);
         endX = (if w c \<le>s endX then w c - 1 else endX)
     in Inr \<lparr>transformY = tY, spriteScreenX = screenX, vMoveScreen = vms,
             spriteHeight = sh, drawStartY = startY, drawEndY = endY,
             spriteWidth = sw, drawStartX = startX, drawEndX = endX,
             spriteTex = spriteTexture sp\<rparr>))"

text \<open>
  \<^verbatim>\<open>makeSpriteLevel\<close> (lines 631-641): a new Level, with the screen rectangles of
  \<^verbatim>\<open>SliceView\<close> and three arrays of \<open>c.w\<close> nil pointers, is stored in the slot of the
  sprite. \<^verbatim>\<open>clearSpriteLevel\<close> (lines 643-645) stores nil there.
\<close>

definition newLevel :: "Camera \<Rightarrow> Level" where
  "newLevel c =
     \<lparr>Sv = SliceView (w c) (h c),
      Cts = replicate (nat (sint (w c))) None,
      St = replicate (nat (sint (w c))) None,
      CurrTex = replicate (nat (sint (w c))) None\<rparr>"

definition makeSpriteLevel :: "Camera \<Rightarrow> goInt \<Rightarrow> panic + Camera" where
  "makeSpriteLevel c idx =
     bindP (store (spriteLvls c) idx (Some (newLevel c))) (\<lambda>ls. Inr (c\<lparr>spriteLvls := ls\<rparr>))"

definition clearSpriteLevel :: "Camera \<Rightarrow> goInt \<Rightarrow> panic + Camera" where
  "clearSpriteLevel c idx =
     bindP (store (spriteLvls c) idx None) (\<lambda>ls. Inr (c\<lparr>spriteLvls := ls\<rparr>))"

text \<open>
  Line 574, the condition under which a stripe is drawn:
  \<^verbatim>\<open>transformY > 0 && stripe > 0 && stripe < c.w && transformY < c.zBuffer[stripe]\<close>.
  The depth buffer is only read when the first three conjuncts hold.
\<close>

definition stripeAccepted :: "Camera \<Rightarrow> spriteProj \<Rightarrow> goInt \<Rightarrow> panic + bool" where
  "stripeAccepted c p stripe =
     (if flt (Fin 0) (transformY p) \<and> 0 <s stripe \<and> stripe <s w c
      then bindP (index (zBuffer c) stripe) (\<lambda>z. Inr (flt (transformY p) z))
      else Inr False)"

text \<open>
  Lines 601-622: the slice of an accepted stripe is written into the level \<open>l\<close> that
  \<open>spriteLvl\<close> points to. The rectangle \<^verbatim>\<open>spriteSlices[texX]\<close> is written through the
  pointer stored in \<open>Cts\<close>; all stripes with the same \<open>texX\<close> write the same two values
  to it.
\<close>

definition writeStripe ::
  "spriteProj \<Rightarrow> goInt \<Rightarrow> Rectangle \<Rightarrow> goInt \<Rightarrow> goInt \<Rightarrow> Level \<Rightarrow> panic + Level" where
  "writeStripe p stripe strip texStartY texEndY l =
     bindP (store (Cts l) stripe
              (Some (strip\<lparr>MinY := texStartY + 1, MaxY := texEndY\<rparr>))) (\<lambda>cts.
     bindP (store (CurrTex l) stripe (Some (spriteTex p))) (\<lambda>currTex.
     bindP (index (Sv l) stripe) (\<lambda>view.
     bindP (store (Sv l) stripe
              (view\<lparr>MinY := drawStartY p + 1, MaxY := drawEndY p\<rparr>)) (\<lambda>sv.
     bindP (store (St l) stripe
              (Some \<lparr>R = shade 255 (transformY p), G = shade 255 (transformY p),
                     B = shade 255 (transformY p), A = 255\<rparr>)) (\<lambda>st.
     Inr (l\<lparr>Sv := sv, Cts := cts, St := st, CurrTex := currTex\<rparr>))))))"

text \<open>
  Lines 584-622, the body of the \<^verbatim>\<open>if\<close> for an accepted stripe, from the texture
  column on; \<open>lvl\<close> is the pointer \<open>spriteLvl\<close>. Either \<^verbatim>\<open>continue\<close> leaves the level as
  it is; \<^verbatim>\<open>cap(spriteSlices)\<close> is the number of rectangles of \<^verbatim>\<open>MakeSlices\<close>.
\<close>

definition drawStripe ::
  "Camera \<Rightarrow> spriteProj \<Rightarrow> Rectangle list \<Rightarrow> goInt \<Rightarrow> Level option \<Rightarrow> panic + Level option" where
  "drawStripe c p spriteSlices stripe lvl =
     bindP (divP (256 * (stripe - (quo (- spriteWidth p) 2 + spriteScreenX p)) * texWidth c)
              (spriteWidth p)) (\<lambda>q.
     let texX = quo q 256
     in if texX <s 0 \<or> int (length spriteSlices) \<le> sint texX then Inr lvl
        else
          bindP (divP (((drawStartY p - vMoveScreen p) * 256 - h c * 128 + spriteHeight p * 128)
                   * texWidth c) (spriteHeight p)) (\<lambda>q1.
          let texStartY = quo q1 256
          in bindP (divP (((drawEndY p - 1 - vMoveScreen p) * 256 - h c * 128
                      + spriteHeight p * 128) * texWidth c) (spriteHeight p)) (\<lambda>q2.
             let texEndY = quo q2 256
             in if texStartY <s 0 \<or> texEndY \<le>s texStartY \<or> texWidth c \<le>s texEndY
                then Inr lvl
                else
                  (case lvl of
                     None \<Rightarrow> Inl NilDereference
                   | Some l \<Rightarrow>
                       bindP (index spriteSlices texX) (\<lambda>strip.
                       bindP (writeStripe p stripe strip texStartY texEndY l) (\<lambda>l'.
                       Inr (Some l')))))))"

text \<open>
  The variables that the loop changes: \<open>renderSprite\<close>, \<open>spriteSlices\<close> and the
  camera, of which only the slot \<open>spriteLvls[idx]\<close> is written.
\<close>

record spriteState =
  renderSprite :: bool
  spriteSlices :: "Rectangle list"
  cam :: Camera

text \<open>Lines 569-623: one round of the loop, for the stripe \<open>stripe\<close>.\<close>

definition spriteStripe ::
  "goInt \<Rightarrow> spriteProj \<Rightarrow> goInt \<Rightarrow> spriteState \<Rightarrow> panic + spriteState" where
  "spriteStripe idx p stripe st =
     bindP (stripeAccepted (cam st) p stripe) (\<lambda>accepted.
     if accepted
     then bindP (if \<not> renderSprite st
                 then bindP (makeSpriteLevel (cam st) idx) (\<lambda>c1.
                        Inr (st\<lparr>renderSprite := True,
                                 spriteSlices := MakeSlices (texW (spriteTex p)) (texH (spriteTex p)),
                                 cam := c1\<rparr>, Some (newLevel (cam st))))
                 else bindP (index (spriteLvls (cam st)) idx) (\<lambda>lvl. Inr (st, lvl)))
            (\<lambda>(st1, lvl).
               bindP (drawStripe (cam st1) p (spriteSlices st1) stripe lvl) (\<lambda>lvl1.
               bindP (store (spriteLvls (cam st1)) idx lvl1) (\<lambda>ls.
               Inr (st1\<lparr>cam := (cam st1)\<lparr>spriteLvls := ls\<rparr>\<rparr>))))
     else Inr st)"

text \<open>
  Line 568, \<^verbatim>\<open>for stripe := drawStartX; stripe < drawEndX; stripe++\<close>. The counter
  cannot wrap around below \<open>drawEndX\<close>, which bounds the number of rounds.
\<close>

lemma sint_succ_below:
  assumes "(a::goInt) <s b"
  shows "sint (a + 1) = sint a + 1"
proof -
  have "sint a < sint b" using assms by (simp add: word_sless_alt)
  moreover have "sint b < 2 ^ 63" using sint_lt [of b] by simp
  moreover have "- (2 ^ 63) \<le> sint a" using sint_ge [of a] by simp
  ultimately show ?thesis
    by (simp add: sint_word_add signed_take_bit_int_eq_self)
qed

function spriteLoop ::
  "goInt \<Rightarrow> spriteProj \<Rightarrow> goInt \<Rightarrow> spriteState \<Rightarrow> panic + spriteState" where
  "spriteLoop idx p stripe st =
     (if stripe <s drawEndX p
      then (case spriteStripe idx p stripe st of
              Inl e \<Rightarrow> Inl e
            | Inr st' \<Rightarrow> spriteLoop idx p (stripe + 1) st')
      else Inr st)"
  by pat_completeness auto
termination
proof (relation "measure (\<lambda>(idx, p, stripe, st). nat (sint (drawEndX p) - sint stripe))")
  show "wf (measure (\<lambda>(idx, p, stripe, st). nat (sint (drawEndX p) - sint stripe)))"
    by simp
next
  fix idx :: goInt and p :: spriteProj and stripe :: goInt and st st' :: spriteState
  assume "stripe <s drawEndX p"
  then show "((idx, p, stripe + 1, st'), (idx, p, stripe, st))
      \<in> measure (\<lambda>(idx, p, stripe, st). nat (sint (drawEndX p) - sint stripe))"
    using sint_succ_below [of stripe "drawEndX p"] by (simp add: word_sless_alt)
qed

text \<open>\<^verbatim>\<open>castSprite\<close> (lines 502-629).\<close>

definition castSprite :: "Camera \<Rightarrow> goInt \<Rightarrow> panic + Camera" where
  "castSprite c idx =
     bindP (projectSprite c idx) (\<lambda>p.
     bindP (spriteLoop idx p (drawStartX p)
              \<lparr>renderSprite = False, spriteSlices = [], cam = c\<rparr>) (\<lambda>st.
     if \<not> renderSprite st then clearSpriteLevel (cam st) idx else Inr (cam st)))"

section \<open>Sprite sorter (lines 647-672)\<close>

text \<open>Lines 653-659: the next gap.\<close>

definition combGap :: "goInt \<Rightarrow> goInt" where
  "combGap gap =
     (let g = quo (gap * 10) 13;
          g = (if g = 9 \<or> g = 10 then 11 else g)
      in if g <s 1 then 1 else g)"

text \<open>
  Lines 662-670, \<^verbatim>\<open>for i := 0; i < amount-gap; i++\<close>: one pass over the pairs
  \<open>(i, i + gap)\<close>. A pair whose first distance is smaller is exchanged in both
  arrays. The counter stays below \<open>amount - gap\<close>, which bounds the rounds.
\<close>

function combPass ::
  "goInt \<Rightarrow> goInt \<Rightarrow> goInt \<Rightarrow> goInt list \<times> float64 list \<times> bool
     \<Rightarrow> panic + goInt list \<times> float64 list \<times> bool" where
  "combPass amount gap i (order, ds, swapped) =
     (if i <s amount - gap
      then (case index ds i of
              Inl e \<Rightarrow> Inl e
            | Inr di \<Rightarrow>
               (case index ds (i + gap) of
                  Inl e \<Rightarrow> Inl e
                | Inr dj \<Rightarrow>
                   if flt di dj
                   then (case index order (i + gap) of
                           Inl e \<Rightarrow> Inl e
                         | Inr oj \<Rightarrow>
                            (case index order i of
                               Inl e \<Rightarrow> Inl e
                             | Inr oi \<Rightarrow>
                                combPass amount gap (i + 1)
                                  (order[nat (sint i) := oj, nat (sint (i + gap)) := oi],
                                   ds[nat (sint i) := dj, nat (sint (i + gap)) := di],
                                   True)))
                   else combPass amount gap (i + 1) (order, ds, swapped)))
      else Inr (order, ds, swapped))"
  by pat_completeness auto
termination
proof (relation "measure (\<lambda>(amount, gap, i, st). nat (sint (amount - gap) - sint i))")
  show "wf (measure (\<lambda>(amount, gap, i, st). nat (sint (amount - gap) - sint i)))"
    by simp
next
  fix amount gap i :: goInt and order :: "goInt list" and ds :: "float64 list"
    and swapped :: bool and di dj :: float64 and oj oi :: goInt
  assume "i <s amount - gap"
  then show "((amount, gap, i + 1,
        order[nat (sint i) := oj, nat (sint (i + gap)) := oi],
        ds[nat (sint i) := dj, nat (sint (i + gap)) := di], True),
       amount, gap, i, order, ds, swapped)
      \<in> measure (\<lambda>(amount, gap, i, st). nat (sint (amount - gap) - sint i))"
    using sint_succ_below [of i "amount - gap"] by (simp add: word_sless_alt)
next
  fix amount gap i :: goInt and order :: "goInt list" and ds :: "float64 list"
    and swapped :: bool
  assume "i <s amount - gap"
  then show "((amount, gap, i + 1, order, ds, swapped), amount, gap, i, order, ds, swapped)
      \<in> measure (\<lambda>(amount, gap, i, st). nat (sint (amount - gap) - sint i))"
    using sint_succ_below [of i "amount - gap"] by (simp add: word_sless_alt)
qed

text \<open>
  Lines 649-671. The variables of the outer loop are \<open>gap\<close>, \<open>swapped\<close> and the two
  arrays; the loop runs while \<^verbatim>\<open>gap > 1 || swapped\<close> and no panic has been raised.
\<close>

definition combRunning :: "panic + goInt \<times> bool \<times> goInt list \<times> float64 list \<Rightarrow> bool" where
  "combRunning r = (case r of Inl e \<Rightarrow> False | Inr (gap, swapped, order, ds) \<Rightarrow> 1 <s gap \<or> swapped)"

definition combRound ::
  "goInt \<Rightarrow> goInt \<times> bool \<times> goInt list \<times> float64 list
     \<Rightarrow> panic + goInt \<times> bool \<times> goInt list \<times> float64 list" where
  "combRound amount st =
     (case st of (gap, swapped, order, ds) \<Rightarrow>
        bindP (combPass amount (combGap gap) 0 (order, ds, False))
          (\<lambda>(order', ds', swapped'). Inr (combGap gap, swapped', order', ds')))"

definition combSort ::
  "goInt list \<Rightarrow> float64 list \<Rightarrow> goInt \<Rightarrow> (panic + goInt list \<times> float64 list) option" where
  "combSort order ds amount =
     map_option (\<lambda>r. bindP r (\<lambda>(gap, swapped, order', ds'). Inr (order', ds')))
       (while_option combRunning (\<lambda>r. bindP r (combRound amount))
          (Inr (amount, False, order, ds)))"

section \<open>Movement controller (lines 674-714)\<close>







section \<open>Notions used in the statements\<close>

text \<open>A grid of dimension at least 24 by 24.\<close>

definition gridOK :: "goInt list list \<Rightarrow> bool" where
  "gridOK grid = (24 \<le> length grid \<and> (\<forall>row \<in> set grid. 24 \<le> length row))"

text \<open>
  The distance, in steps of one axis, to the edge of the open square \<open>(0, 24)\<close> that
  the DDA loop accepts, and the variant of the loop built from it.
\<close>

definition potC :: "goInt \<Rightarrow> goInt \<Rightarrow> nat" where
  "potC stepC m = (if stepC = 1 then nat (24 - sint m) else nat (sint m))"

definition ddaMeasure :: "goInt \<Rightarrow> goInt \<Rightarrow> panic + ddaState \<Rightarrow> nat" where
  "ddaMeasure stepX stepY r =
     (case r of Inl e \<Rightarrow> 0
      | Inr st \<Rightarrow> if hit st = 0 then 1 + potC stepX (mapX st) + potC stepY (mapY st) else 0)"

text \<open>What holds of the state in which the loop exits: a wall hit strictly inside
  the grid on a positive cell, or a boundary hit with the cell forced into
  \<open>[0, 23]\<close>.\<close>

definition ddaExit :: "goInt list list \<Rightarrow> ddaState \<Rightarrow> bool" where
  "ddaExit grid st =
     ((hit st = 1 \<and> 0 < sint (mapX st) \<and> sint (mapX st) < 24
         \<and> 0 < sint (mapY st) \<and> sint (mapY st) < 24
         \<and> (\<exists>cell. index2 grid (mapX st) (mapY st) = Inr cell \<and> 0 <s cell))
      \<or> (hit st = 2 \<and> 0 \<le> sint (mapX st) \<and> sint (mapX st) \<le> 23
         \<and> 0 \<le> sint (mapY st) \<and> sint (mapY st) \<le> 23))"

definition ddaInv :: "goInt list list \<Rightarrow> panic + ddaState \<Rightarrow> bool" where
  "ddaInv grid r = (case r of Inl e \<Rightarrow> True | Inr st \<Rightarrow> hit st = 0 \<or> ddaExit grid st)"

text \<open>
  The scenario of the specification: a 24 by 24 grid that is empty but for one wall
  block, and a camera with plane \<open>(0, 0.66)\<close> and a viewport 320 columns wide, whose
  table \<open>camX\<close> is filled by \<open>preCalcCamX\<close>.
\<close>

definition emptyGrid :: "goInt list list" where
  "emptyGrid = replicate 24 (replicate 24 0)"

definition wallAt :: "nat \<Rightarrow> nat \<Rightarrow> goInt list list" where
  "wallAt i j = emptyGrid[i := (emptyGrid ! i)[j := 1]]"

definition testCamera :: "Vector2 \<Rightarrow> Vector2 \<Rightarrow> Camera" where
  "testCamera p d =
     preCalcCamX
       \<lparr>pos = p, dir = d, plane = \<lparr>X = Fin 0, Y = Fin 0.66\<rparr>,
        w = 320, h = 200, targetTPS = 60,
        worldMap = emptyGrid, upMap = emptyGrid, midMap = emptyGrid,
        texWidth = 64, s = [], camX = [], camY = [], lvls = [], zBuffer = [],
        sprite = [], spriteOrder = [], spriteDistance = [], spriteLvls = [], Textures = []\<rparr>"











text \<open>
  A stripe is accepted when the condition of line 574 holds for it. A column of a
  sprite level has been written when one of its four entries differs from what
  \<^verbatim>\<open>makeSpriteLevel\<close> puts there (three nil pointers and the rectangle of
  \<^verbatim>\<open>SliceView\<close>): that is a slice emitted for the column.
\<close>

definition accepted :: "Camera \<Rightarrow> spriteProj \<Rightarrow> goInt \<Rightarrow> bool" where
  "accepted c p x =
     (flt (Fin 0) (transformY p) \<and> 0 <s x \<and> x <s w c
      \<and> (case index (zBuffer c) x of Inl e \<Rightarrow> False | Inr z \<Rightarrow> flt (transformY p) z))"

definition columnWritten :: "Camera \<Rightarrow> Level \<Rightarrow> goInt \<Rightarrow> bool" where
  "columnWritten c l x =
     (inRange (Cts l) x
      \<and> (Cts l ! nat (sint x) \<noteq> None \<or> St l ! nat (sint x) \<noteq> None
         \<or> CurrTex l ! nat (sint x) \<noteq> None
         \<or> Sv l ! nat (sint x) \<noteq> SliceView (w c) (h c) ! nat (sint x)))"

text \<open>A level with the four arrays of the length that \<^verbatim>\<open>makeSpriteLevel\<close> gives them.\<close>

definition levelShape :: "Camera \<Rightarrow> Level \<Rightarrow> bool" where
  "levelShape c l =
     (length (Sv l) = nat (sint (w c)) \<and> length (Cts l) = nat (sint (w c))
      \<and> length (St l) = nat (sint (w c)) \<and> length (CurrTex l) = nat (sint (w c)))"

text \<open>The stripes that the loop has gone through when its counter is \<open>stripe\<close>.\<close>

definition stripesDone :: "spriteProj \<Rightarrow> goInt \<Rightarrow> goInt \<Rightarrow> bool" where
  "stripesDone p stripe k =
     (sint (drawStartX p) \<le> sint k \<and> sint k < sint stripe \<and> sint k < sint (drawEndX p))"

text \<open>
  The invariant of the loop of \<^verbatim>\<open>castSprite\<close>: only the slot of the sprite has
  changed; \<open>renderSprite\<close> tells whether a stripe was accepted so far; if none was, the
  slots are as they were, and otherwise the slot holds a level in which only accepted
  stripes of this call have been written.
\<close>

definition spriteInv :: "Camera \<Rightarrow> goInt \<Rightarrow> spriteProj \<Rightarrow> goInt \<Rightarrow> spriteState \<Rightarrow> bool" where
  "spriteInv c idx p stripe st =
     (cam st = c\<lparr>spriteLvls := spriteLvls (cam st)\<rparr>
      \<and> (renderSprite st \<longleftrightarrow> (\<exists>k. stripesDone p stripe k \<and> accepted c p k))
      \<and> (if renderSprite st
          then (\<exists>l. inRange (spriteLvls c) idx
                 \<and> spriteLvls (cam st) = (spriteLvls c)[nat (sint idx) := Some l]
                 \<and> levelShape c l
                 \<and> (\<forall>x. columnWritten c l x \<longrightarrow> accepted c p x \<and> stripesDone p stripe x))
          else spriteLvls (cam st) = spriteLvls c))"

text \<open>
  A camera with a viewport of 4 by 4, one sprite straight ahead at distance 1 with a
  texture 4 by 4, and the depth buffer \<open>zs\<close>; and the level that \<^verbatim>\<open>castSprite\<close> builds
  for that sprite when only column 1 is accepted.
\<close>

definition spriteCamera :: "float64 list \<Rightarrow> Level option \<Rightarrow> Camera" where
  "spriteCamera zs old =
     \<lparr>pos = \<lparr>X = Fin 2.5, Y = Fin 2.5\<rparr>, dir = \<lparr>X = Fin 1, Y = Fin 0\<rparr>,
      plane = \<lparr>X = Fin 0, Y = Fin 0.66\<rparr>,
      w = 4, h = 4, targetTPS = 60,
      worldMap = emptyGrid, upMap = emptyGrid, midMap = emptyGrid,
      texWidth = 4, s = [], camX = [], camY = [], lvls = [], zBuffer = zs,
      sprite = [\<lparr>spritePos = \<lparr>X = Fin 3.5, Y = Fin 2.5\<rparr>,
                 spriteTexture = \<lparr>texId = 7, texW = 4, texH = 4\<rparr>\<rparr>],
      spriteOrder = [0], spriteDistance = [Fin 1], spriteLvls = [old], Textures = []\<rparr>"

definition spriteProj1 :: spriteProj where
  "spriteProj1 =
     \<lparr>transformY = Fin 1, spriteScreenX = 2, vMoveScreen = 0, spriteHeight = 4,
      drawStartY = 0, drawEndY = 3, spriteWidth = 4, drawStartX = 0, drawEndX = 3,
      spriteTex = \<lparr>texId = 7, texW = 4, texH = 4\<rparr>\<rparr>"

definition spriteLevel1 :: Level where
  "spriteLevel1 =
     \<lparr>Sv = [\<lparr>MinX = 0, MinY = 0, MaxX = 1, MaxY = 4\<rparr>,
            \<lparr>MinX = 1, MinY = 1, MaxX = 2, MaxY = 3\<rparr>,
            \<lparr>MinX = 2, MinY = 0, MaxX = 3, MaxY = 4\<rparr>,
            \<lparr>MinX = 3, MinY = 0, MaxX = 4, MaxY = 4\<rparr>],
      Cts = [None, Some \<lparr>MinX = 1, MinY = 1, MaxX = 2, MaxY = 2\<rparr>, None, None],
      St = [None, Some \<lparr>R = 255, G = 255, B = 255, A = 255\<rparr>, None, None],
      CurrTex = [None, Some \<lparr>texId = 7, texW = 4, texH = 4\<rparr>, None, None]\<rparr>"

text \<open>Notions for the sorter.  \<^term>\<open>inversions\<close> counts the pairs of a distance array
  that stand in ascending order; \<^term>\<open>passPre\<close> and \<^term>\<open>passOK\<close> are the contract of one
  pass of the inner loop, \<^term>\<open>combInv\<close> and \<^term>\<open>combMeasure\<close> the invariant and the
  measure of the outer loop, and \<^term>\<open>sortedDesc\<close> says that the distances are in
  non-increasing order.\<close>

fun inversions :: "float64 list \<Rightarrow> nat" where
  "inversions [] = 0"
| "inversions (x # xs) = length (filter (flt x) xs) + inversions xs"

definition passPre :: "goInt \<Rightarrow> goInt \<Rightarrow> goInt \<Rightarrow> goInt list \<times> float64 list \<times> bool \<Rightarrow> bool" where
  "passPre amount gap i st =
     (case st of (order, ds, sw) \<Rightarrow>
        sint amount = int (length ds) \<and> length order = length ds
        \<and> 1 \<le> sint gap \<and> sint gap \<le> int (length ds) \<and> 0 \<le> sint i)"

definition passOK ::
  "goInt \<Rightarrow> goInt \<Rightarrow> goInt list \<times> float64 list \<times> bool
     \<Rightarrow> goInt list \<times> float64 list \<times> bool \<Rightarrow> bool" where
  "passOK gap i st st' =
     (case st of (order, ds, sw) \<Rightarrow> case st' of (order', ds', sw') \<Rightarrow>
        length ds' = length ds \<and> length order' = length order
        \<and> mset (zip order' ds') = mset (zip order ds)
        \<and> (sw \<longrightarrow> sw')
        \<and> (\<not> sw' \<longrightarrow> order' = order \<and> ds' = ds
              \<and> (\<forall>k. nat (sint i) \<le> k \<and> k + nat (sint gap) < length ds
                     \<longrightarrow> \<not> flt (ds ! k) (ds ! (k + nat (sint gap)))))
        \<and> (gap = 1 \<longrightarrow> inversions ds' \<le> inversions ds
              \<and> (sw' \<longrightarrow> sw \<or> inversions ds' < inversions ds)))"

definition sortedDesc :: "float64 list \<Rightarrow> bool" where
  "sortedDesc ds = (\<forall>i j. i < j \<and> j < length ds \<longrightarrow> fle (ds ! j) (ds ! i))"

definition combInv ::
  "goInt list \<Rightarrow> float64 list \<Rightarrow> panic + goInt \<times> bool \<times> goInt list \<times> float64 list \<Rightarrow> bool" where
  "combInv order0 ds0 r =
     (case r of
        Inl e \<Rightarrow> False
      | Inr (gap, sw, order, ds) \<Rightarrow>
          length ds = length ds0 \<and> length order = length ds0
          \<and> mset (zip order ds) = mset (zip order0 ds0)
          \<and> sint gap \<le> int (length ds0) \<and> (sw \<longrightarrow> 1 \<le> sint gap)
          \<and> (\<not> sw \<and> sint gap \<le> 1 \<longrightarrow> sortedDesc ds))"

definition combMeasure :: "panic + goInt \<times> bool \<times> goInt list \<times> float64 list \<Rightarrow> nat \<times> nat" where
  "combMeasure r =
     (case r of
        Inl e \<Rightarrow> (0, 0)
      | Inr (gap, sw, order, ds) \<Rightarrow> (nat (sint gap), inversions ds + (if sw then 1 else 0)))"

section \<open>Verified properties\<close>

subsection \<open>Conversions and clamping\<close>

lemma Clamp_range: "0 \<le>s Clamp v 0 255 \<and> Clamp v 0 255 \<le>s 255"
  by (simp add: Clamp_def word_sle_eq word_sless_alt)

lemma Clamp_mono: "a \<le>s b \<Longrightarrow> Clamp a 0 255 \<le>s Clamp b 0 255"
  by (auto simp add: Clamp_def word_sle_eq word_sless_alt)

lemma truncR_mono: "a \<le> b \<Longrightarrow> truncR a \<le> truncR b"
proof -
  assume ab: "a \<le> b"
  have f: "\<lfloor>a\<rfloor> \<le> \<lfloor>b\<rfloor>" and c: "\<lceil>a\<rceil> \<le> \<lceil>b\<rceil>"
    using ab by (auto intro: floor_mono ceiling_mono)
  show ?thesis
  proof (cases "0 \<le> a")
    case True
    then show ?thesis using ab f by (simp add: truncR_def)
  next
    case False
    then have a0: "\<lceil>a\<rceil> \<le> 0" by (simp add: ceiling_le_zero)
    show ?thesis
    proof (cases "0 \<le> b")
      case True
      then have "0 \<le> \<lfloor>b\<rfloor>" by simp
      moreover have "truncR a = \<lceil>a\<rceil>" using False by (simp add: truncR_def)
      moreover have "truncR b = \<lfloor>b\<rfloor>" using True by (simp add: truncR_def)
      ultimately show ?thesis using a0 by linarith
    next
      case nb: False
      then show ?thesis using False c by (simp add: truncR_def)
    qed
  qed
qed

lemma sint_minInt: "sint minInt = - (2 ^ 63)"
  by (simp add: minInt_def)

lemma sint_toInt_mono:
  assumes "a \<le> b" and "truncR b < 2 ^ 63"
  shows "sint (toInt (Fin a)) \<le> sint (toInt (Fin b))"
proof -
  have t: "truncR a \<le> truncR b" using assms(1) by (rule truncR_mono)
  show ?thesis
  proof (cases "- (2 ^ 63) \<le> truncR a")
    case True
    then show ?thesis using t assms(2)
      by (simp add: sint_sbintrunc' signed_take_bit_int_eq_self)
  next
    case False
    then have "sint (toInt (Fin a)) = - (2 ^ 63)" by (simp add: sint_minInt)
    moreover have "- (2 ^ 63) \<le> sint (toInt (Fin b))"
      using sint_ge [of "toInt (Fin b)"] by simp
    ultimately show ?thesis by simp
  qed
qed

lemma toByte_uint:
  assumes "0 \<le>s v" "v \<le>s 255"
  shows "uint (toByte v) = sint v"
proof -
  have r: "0 \<le> sint v" "sint v \<le> 255" using assms by (simp_all add: word_sle_eq)
  have "uint v = take_bit 64 (sint v)" using uint_sint [of v] by simp
  also have "\<dots> = sint v" using r by (simp add: take_bit_int_eq_self)
  finally have su: "uint v = sint v" .
  have "take_bit 8 (sint v) = sint v" using r by (simp add: take_bit_int_eq_self)
  then show ?thesis using su by (simp add: toByte_def unsigned_ucast_eq)
qed

subsection \<open>Lighting model\<close>

lemma shadeLevel_mono_fin:
  assumes "0 \<le> a" "a \<le> b"
  shows "shadeLevel ch (Fin b) \<le>s shadeLevel ch (Fin a)"
proof -
  let ?v = "\<lambda>d. real (unat ch) + sqrt d * (- 100) + 300"
  have le: "?v b \<le> ?v a" using assms by simp
  have "unat ch < 2 ^ LENGTH(8)" by (rule unsigned_less)
  then have "unat ch < 256" by simp
  then have "real (unat ch) \<le> 255" by linarith
  moreover have "0 \<le> sqrt a * 100" using assms by simp
  ultimately have "?v a \<le> 555" by linarith
  then have "truncR (?v a) \<le> truncR 555" by (rule truncR_mono)
  then have "truncR (?v a) < 2 ^ 63" by (simp add: truncR_def)
  then have "sint (toInt (Fin (?v b))) \<le> sint (toInt (Fin (?v a)))"
    using le by (intro sint_toInt_mono)
  then have "toInt (Fin (?v b)) \<le>s toInt (Fin (?v a))" by (simp add: word_sle_eq)
  then have "Clamp (toInt (Fin (?v b))) 0 255 \<le>s Clamp (toInt (Fin (?v a))) 0 255"
    by (rule Clamp_mono)
  then show ?thesis using assms
    by (simp add: shadeLevel_def shadowDepth_def lightFalloff_def sunLight_def ofByte_def)
qed

lemma shadeLevel_PInf: "shadeLevel ch PInf = 0"
  by (simp add: shadeLevel_def shadowDepth_def lightFalloff_def sunLight_def ofByte_def infOf_def
      Clamp_def minInt_def word_sless_alt)

lemma shadeLevel_range: "0 \<le>s shadeLevel ch d \<and> shadeLevel ch d \<le>s 255"
  unfolding shadeLevel_def by (rule Clamp_range)

lemma shadeLevel_mono:
  assumes "fle (Fin 0) d1" "fle d1 d2"
  shows "shadeLevel ch d2 \<le>s shadeLevel ch d1"
proof (cases d2)
  case (Fin b)
  then obtain a where "d1 = Fin a" using assms by (cases d1) auto
  then show ?thesis using assms Fin by (simp add: shadeLevel_mono_fin)
next
  case PInf
  then show ?thesis using shadeLevel_range [of ch d1] by (simp add: shadeLevel_PInf)
next
  case NInf
  then show ?thesis using assms by (cases d1) auto
next
  case NaN
  then show ?thesis using assms by (cases d1) auto
qed

text \<open>
  C7. The per-channel shade \<^verbatim>\<open>Clamp(int(float64(channel) + sqrt(distance) * lightFalloff
  + sunLight), 0, 255)\<close>, with \<open>lightFalloff = -100\<close> and \<open>sunLight = 300\<close>, lies in
  \<open>[0, 255]\<close>, the byte stored in the tint is that number, and the shade does not
  increase when the distance grows: for all distances \<open>0 \<le> d1 \<le> d2\<close> (the infinite
  distance included) the shade at \<open>d2\<close> is at most the shade at \<open>d1\<close>. This holds on the
  whole non-negative range, hence also beyond the point where the result stops
  saturating at 255.
\<close>

theorem shade_bounded_and_antitone:
  assumes "fle (Fin 0) d1" and "fle d1 d2"
  shows "lightFalloff = Fin (- 100) \<and> sunLight = Fin 300
    \<and> 0 \<le>s shadeLevel ch d1 \<and> shadeLevel ch d1 \<le>s 255
    \<and> 0 \<le>s shadeLevel ch d2 \<and> shadeLevel ch d2 \<le>s 255
    \<and> uint (shade ch d1) = sint (shadeLevel ch d1)
    \<and> uint (shade ch d2) = sint (shadeLevel ch d2)
    \<and> shadeLevel ch d2 \<le>s shadeLevel ch d1
    \<and> shade ch d2 \<le> shade ch d1"
proof -
  have r1: "0 \<le>s shadeLevel ch d1" "shadeLevel ch d1 \<le>s 255"
    using shadeLevel_range [of ch d1] by simp_all
  have r2: "0 \<le>s shadeLevel ch d2" "shadeLevel ch d2 \<le>s 255"
    using shadeLevel_range [of ch d2] by simp_all
  have m: "shadeLevel ch d2 \<le>s shadeLevel ch d1"
    using assms by (rule shadeLevel_mono)
  have u1: "uint (shade ch d1) = sint (shadeLevel ch d1)"
    unfolding shade_def using r1 by (rule toByte_uint)
  have u2: "uint (shade ch d2) = sint (shadeLevel ch d2)"
    unfolding shade_def using r2 by (rule toByte_uint)
  have "uint (shade ch d2) \<le> uint (shade ch d1)"
    using m u1 u2 by (simp add: word_sle_eq)
  then have "shade ch d2 \<le> shade ch d1" by (simp add: word_le_def)
  then show ?thesis using r1 r2 m u1 u2 by (simp add: lightFalloff_def sunLight_def)
qed

theorem shade_bounded_and_antitone_witness:
  "fle (Fin 0) (Fin 4) \<and> fle (Fin 4) (Fin 16)
   \<and> shadeLevel 255 (Fin 4) = 255 \<and> shadeLevel 255 (Fin 16) = 155
   \<and> shadeLevel 255 (Fin 16) \<le>s shadeLevel 255 (Fin 4)
   \<and> shade 255 (Fin 16) \<le> shade 255 (Fin 4)"
proof -
  have h1: "fle (Fin 0) (Fin 4)" and h2: "fle (Fin 4) (Fin 16)" by simp_all
  have v1: "shadeLevel 255 (Fin 4) = 255"
    by (simp add: shadeLevel_def Clamp_def shadowDepth_def lightFalloff_def sunLight_def
        ofByte_def truncR_def word_sless_alt)
  have v2: "shadeLevel 255 (Fin 16) = 155"
    by (simp add: shadeLevel_def Clamp_def shadowDepth_def lightFalloff_def sunLight_def
        ofByte_def truncR_def word_sless_alt)
  show ?thesis
    using shade_bounded_and_antitone [OF h1 h2, of 255] h1 h2 v1 v2 by simp
qed

subsection \<open>The DDA loop\<close>

lemmas dda_eval = castRay_def ddaLoop_def ddaInit_def ddaStep_def ddaCheck_def ddaAdvance_def
  ddaRunning_def clampCell_def perpDist_def stepOf_def sideDist0_def deltaDist_def
  bindP_def index2_def index_def inRange_def ofInt_def truncR_def fsub_def infOf_def
  word_sless_alt word_sle_eq

lemma sint_pred24: "0 < sint (m::goInt) \<Longrightarrow> sint m < 24 \<Longrightarrow> sint (m - 1) = sint m - 1"
  by (simp add: sint_word_diff signed_take_bit_int_eq_self)

lemma sint_succ24: "0 < sint (m::goInt) \<Longrightarrow> sint m < 24 \<Longrightarrow> sint (m + 1) = sint m + 1"
  by (simp add: sint_word_add signed_take_bit_int_eq_self)

lemma stepOf_cases: "stepOf d = 1 \<or> stepOf d = - 1"
  by (simp add: stepOf_def)

lemma index2_gridOK:
  assumes "gridOK grid" "0 \<le> sint i" "sint i < 24" "0 \<le> sint j" "sint j < 24"
  shows "index2 grid i j = Inr (grid ! nat (sint i) ! nat (sint j))"
proof -
  have "24 \<le> length grid" using assms(1) by (simp add: gridOK_def)
  then have li: "nat (sint i) < length grid" using assms(2,3) by linarith
  then have "grid ! nat (sint i) \<in> set grid" by simp
  then have "24 \<le> length (grid ! nat (sint i))" using assms(1) by (simp add: gridOK_def)
  then have lj: "nat (sint j) < length (grid ! nat (sint i))" using assms(4,5) by linarith
  have i1: "index grid i = Inr (grid ! nat (sint i))"
    using li assms(2) by (simp add: index_def inRange_def)
  have i2: "index (grid ! nat (sint i)) j = Inr (grid ! nat (sint i) ! nat (sint j))"
    using lj assms(4) by (simp add: index_def inRange_def)
  show ?thesis by (simp add: index2_def bindP_def i1 i2)
qed

lemma clampCell_range: "0 \<le> sint (clampCell m) \<and> sint (clampCell m) \<le> 23"
  by (simp add: clampCell_def word_sless_alt)

lemma potC_step:
  assumes "stepC = 1 \<or> stepC = - 1" "0 < sint (m + stepC)" "sint (m + stepC) < 24"
  shows "potC stepC (m + stepC) < potC stepC m"
proof -
  from assms(1) show ?thesis
  proof
    assume s1: "stepC = 1"
    have "sint (m + 1 - 1) = sint (m + 1) - 1" using assms s1 by (intro sint_pred24) simp_all
    then have "sint m = sint (m + 1) - 1" by simp
    then show ?thesis using assms s1 by (simp add: potC_def)
  next
    assume s1: "stepC = - 1"
    have "sint (m - 1 + 1) = sint (m - 1) + 1" using assms s1 by (intro sint_succ24) simp_all
    then have "sint m = sint (m - 1) + 1" by simp
    then show ?thesis using assms s1 by (simp add: potC_def)
  qed
qed

lemma ddaMeasure_simps:
  "ddaMeasure stepX stepY (Inl e) = 0"
  "ddaMeasure stepX stepY (Inr st) =
     (if hit st = 0 then 1 + potC stepX (mapX st) + potC stepY (mapY st) else 0)"
  by (simp_all add: ddaMeasure_def)

text \<open>The four outcomes of the test of a square.\<close>

lemma ddaCheck_cases:
  "(\<exists>e. ddaCheck grid a = Inl e) \<or>
   (ddaCheck grid a = Inr (a\<lparr>hit := 1\<rparr>) \<and> 0 < sint (mapX a) \<and> sint (mapX a) < 24
      \<and> 0 < sint (mapY a) \<and> sint (mapY a) < 24
      \<and> (\<exists>cell. index2 grid (mapX a) (mapY a) = Inr cell \<and> 0 <s cell)) \<or>
   (ddaCheck grid a = Inr a \<and> 0 < sint (mapX a) \<and> sint (mapX a) < 24
      \<and> 0 < sint (mapY a) \<and> sint (mapY a) < 24) \<or>
   (ddaCheck grid a = Inr (a\<lparr>hit := 2, mapX := clampCell (mapX a), mapY := clampCell (mapY a)\<rparr>)
      \<and> \<not> (0 < sint (mapX a) \<and> sint (mapX a) < 24 \<and> 0 < sint (mapY a) \<and> sint (mapY a) < 24))"
  by (cases "index2 grid (mapX a) (mapY a)")
     (auto simp add: ddaCheck_def bindP_def word_sless_alt)

lemma ddaAdvance_pot:
  assumes sx: "stepX = 1 \<or> stepX = - 1" and sy: "stepY = 1 \<or> stepY = - 1"
    and a: "a = ddaAdvance dX dY stepX stepY st"
    and r: "0 < sint (mapX a)" "sint (mapX a) < 24" "0 < sint (mapY a)" "sint (mapY a) < 24"
  shows "potC stepX (mapX a) + potC stepY (mapY a) < potC stepX (mapX st) + potC stepY (mapY st)"
proof (cases "flt (sideDistX st) (sideDistY st)")
  case True
  then have e: "mapX a = mapX st + stepX" "mapY a = mapY st"
    using a by (simp_all add: ddaAdvance_def)
  have "potC stepX (mapX st + stepX) < potC stepX (mapX st)"
    using sx r(1,2) e(1) by (intro potC_step) simp_all
  then show ?thesis using e by simp
next
  case False
  then have e: "mapY a = mapY st + stepY" "mapX a = mapX st"
    using a by (simp_all add: ddaAdvance_def)
  have "potC stepY (mapY st + stepY) < potC stepY (mapY st)"
    using sy r(3,4) e(1) by (intro potC_step) simp_all
  then show ?thesis using e by simp
qed

lemma ddaAdvance_hit: "hit (ddaAdvance dX dY stepX stepY st) = hit st"
  by (simp add: ddaAdvance_def)

text \<open>Every round of the loop lowers the variant, whatever the grid holds and
  whichever axis the side distances select.\<close>

lemma ddaStep_measure:
  assumes sx: "stepX = 1 \<or> stepX = - 1" and sy: "stepY = 1 \<or> stepY = - 1"
    and run: "ddaRunning r"
  shows "ddaMeasure stepX stepY (bindP r (ddaStep grid dX dY stepX stepY))
           < ddaMeasure stepX stepY r"
proof -
  from run obtain st where r: "r = Inr st" and h0: "hit st = 0"
    by (cases r) (simp_all add: ddaRunning_def)
  define a where "a = ddaAdvance dX dY stepX stepY st"
  have st: "bindP r (ddaStep grid dX dY stepX stepY) = ddaCheck grid a"
    by (simp add: r bindP_def ddaStep_def a_def)
  have m0: "ddaMeasure stepX stepY r = 1 + potC stepX (mapX st) + potC stepY (mapY st)"
    by (simp add: r h0 ddaMeasure_simps)
  have ha: "hit a = 0" using h0 by (simp add: a_def ddaAdvance_hit)
  consider (err) e where "ddaCheck grid a = Inl e"
    | (wall) "ddaCheck grid a = Inr (a\<lparr>hit := 1\<rparr>)"
    | (free) "ddaCheck grid a = Inr a" "0 < sint (mapX a)" "sint (mapX a) < 24"
        "0 < sint (mapY a)" "sint (mapY a) < 24"
    | (edge) "ddaCheck grid a
        = Inr (a\<lparr>hit := 2, mapX := clampCell (mapX a), mapY := clampCell (mapY a)\<rparr>)"
    using ddaCheck_cases [of grid a] by blast
  then show ?thesis
  proof cases
    case err
    then show ?thesis by (simp add: st m0 ddaMeasure_simps)
  next
    case wall
    then show ?thesis by (simp add: st m0 ddaMeasure_simps)
  next
    case free
    have "potC stepX (mapX a) + potC stepY (mapY a)
            < potC stepX (mapX st) + potC stepY (mapY st)"
      using ddaAdvance_pot [OF sx sy a_def free(2-5)] .
    then show ?thesis using free(1) ha by (simp add: st m0 ddaMeasure_simps)
  next
    case edge
    then show ?thesis by (simp add: st m0 ddaMeasure_simps)
  qed
qed

lemma ddaLoop_terminates:
  assumes sx: "stepX = 1 \<or> stepX = - 1" and sy: "stepY = 1 \<or> stepY = - 1"
  shows "\<exists>t. ddaLoop grid dX dY stepX stepY st = Some t"
  unfolding ddaLoop_def
  by (rule measure_while_option_Some [where P = "\<lambda>_. True" and f = "ddaMeasure stepX stepY"])
     (simp_all add: ddaStep_measure [OF sx sy])

lemma ddaStep_inv:
  assumes run: "ddaRunning r"
  shows "ddaInv grid (bindP r (ddaStep grid dX dY stepX stepY))"
proof -
  from run obtain st where r: "r = Inr st" and h0: "hit st = 0"
    by (cases r) (simp_all add: ddaRunning_def)
  define a where "a = ddaAdvance dX dY stepX stepY st"
  have st: "bindP r (ddaStep grid dX dY stepX stepY) = ddaCheck grid a"
    by (simp add: r bindP_def ddaStep_def a_def)
  have ha: "hit a = 0" using h0 by (simp add: a_def ddaAdvance_hit)
  show ?thesis
    using ddaCheck_cases [of grid a] ha clampCell_range [of "mapX a"] clampCell_range [of "mapY a"]
    by (auto simp add: st ddaInv_def ddaExit_def)
qed

lemma ddaLoop_exit:
  assumes "ddaLoop grid dX dY stepX stepY st = Some (Inr st')" and "hit st = 0"
  shows "ddaExit grid st'"
proof -
  have w: "while_option ddaRunning (\<lambda>r. bindP r (ddaStep grid dX dY stepX stepY)) (Inr st)
             = Some (Inr st')"
    using assms(1) by (simp add: ddaLoop_def)
  have step: "ddaInv grid (bindP r (ddaStep grid dX dY stepX stepY))"
    if "ddaInv grid r" "ddaRunning r" for r
    using that(2) by (rule ddaStep_inv)
  have init: "ddaInv grid (Inr st)" by (simp add: ddaInv_def assms(2))
  have "ddaInv grid (Inr st')"
    by (rule while_option_rule [where P = "ddaInv grid", OF step w init])
  moreover have "\<not> ddaRunning (Inr st')" using w by (rule while_option_stop)
  ultimately show ?thesis by (simp add: ddaInv_def ddaRunning_def)
qed

lemma ddaCheck_gridOK:
  assumes "gridOK grid"
  shows "\<exists>st'. ddaCheck grid a = Inr st'"
proof (cases "mapX a <s 24 \<and> mapY a <s 24 \<and> 0 <s mapX a \<and> 0 <s mapY a")
  case True
  then have "index2 grid (mapX a) (mapY a)
               = Inr (grid ! nat (sint (mapX a)) ! nat (sint (mapY a)))"
    using assms by (intro index2_gridOK) (simp_all add: word_sless_alt)
  then show ?thesis using True by (simp add: ddaCheck_def bindP_def)
next
  case False
  then have "ddaCheck grid a
      = Inr (a\<lparr>hit := 2, mapX := clampCell (mapX a), mapY := clampCell (mapY a)\<rparr>)"
    unfolding ddaCheck_def by (rule if_not_P)
  then show ?thesis by simp
qed

lemma ddaLoop_gridOK:
  assumes ok: "gridOK grid" and res: "ddaLoop grid dX dY stepX stepY st = Some t"
  shows "\<exists>st'. t = Inr st'"
proof -
  have w: "while_option ddaRunning (\<lambda>r. bindP r (ddaStep grid dX dY stepX stepY)) (Inr st)
             = Some t"
    using res by (simp add: ddaLoop_def)
  have step: "\<exists>st'. bindP r (ddaStep grid dX dY stepX stepY) = Inr st'"
    if "\<exists>st'. r = Inr st'" "ddaRunning r" for r
    using that(1) ddaCheck_gridOK [OF ok] by (auto simp add: bindP_def ddaStep_def)
  have init: "\<exists>st'. (Inr st :: panic + ddaState) = Inr st'" by simp
  show ?thesis
    by (rule while_option_rule [where P = "\<lambda>r. \<exists>st'. r = Inr st'", OF step w init])
qed

lemma gridOK_wallAt: "i < 24 \<Longrightarrow> gridOK (wallAt i j)"
proof -
  assume "i < 24"
  have "length row = 24" if "row \<in> set (wallAt i j)" for row
  proof -
    have "row \<in> insert ((emptyGrid ! i)[j := 1]) (set emptyGrid)"
      using that set_update_subset_insert [of emptyGrid i] by (auto simp add: wallAt_def)
    then show ?thesis using \<open>i < 24\<close> by (auto simp add: emptyGrid_def)
  qed
  then show ?thesis by (simp add: gridOK_def) (simp add: wallAt_def emptyGrid_def)
qed

lemma rayDir_centre:
  "rayDir (testCamera p \<lparr>X = Fin dx, Y = Fin dy\<rparr>) 160 = Inr (Fin dx, Fin dy)"
  by (simp add: rayDir_def testCamera_def preCalcCamX_def index_def inRange_def bindP_def
      fsub_def ofInt_def)

lemma pos_testCamera: "pos (testCamera p d) = p"
  by (simp add: testCamera_def preCalcCamX_def)

subsection \<open>The wall caster on one ray\<close>

lemma castRay_result:
  assumes "castRay grid rayPos rayDirX rayDirY = Some (Inr r)"
  shows "\<exists>st. ddaExit grid st \<and> hitX r = mapX st \<and> hitY r = mapY st \<and> hitKind r = hit st
           \<and> hitSide r = side st"
proof -
  let ?loop = "ddaLoop grid (deltaDist rayDirX) (deltaDist rayDirY) (stepOf rayDirX)
                 (stepOf rayDirY) (ddaInit rayPos rayDirX rayDirY)"
  from assms obtain t where t: "?loop = Some t"
    and rt: "bindP t (\<lambda>st. Inr
          \<lparr>hitX = mapX st, hitY = mapY st, hitKind = hit st, hitSide = side st,
           perpWallDist =
             (if side st = 0
              then perpDist (mapX st) (X rayPos) (stepOf rayDirX) rayDirX
              else perpDist (mapY st) (Y rayPos) (stepOf rayDirY) rayDirY)\<rparr>) = Inr r"
    by (auto simp add: castRay_def)
  from rt obtain st where st: "t = Inr st" by (cases t) (simp_all add: bindP_def)
  have "ddaExit grid st"
    using t [unfolded st] by (rule ddaLoop_exit) (simp add: ddaInit_def)
  then show ?thesis using rt st by (auto simp add: bindP_def)
qed

lemma castRay_total:
  assumes "gridOK grid"
  shows "\<exists>r. castRay grid rayPos rayDirX rayDirY = Some (Inr r)"
proof -
  let ?loop = "ddaLoop grid (deltaDist rayDirX) (deltaDist rayDirY) (stepOf rayDirX)
                 (stepOf rayDirY) (ddaInit rayPos rayDirX rayDirY)"
  obtain t where t: "?loop = Some t"
    using ddaLoop_terminates [OF stepOf_cases stepOf_cases] by blast
  then obtain st where "t = Inr st" using ddaLoop_gridOK [OF assms] by blast
  then show ?thesis using t by (simp add: castRay_def bindP_def)
qed

text \<open>
  C2. On a grid of dimension at least 24 by 24, for every camera position and every
  ray direction (any \<^verbatim>\<open>float64\<close> values, the infinities and NaN included) the DDA loop
  of \<^verbatim>\<open>castLevel\<close> exits without a panic, by a wall hit or a boundary hit, with
  \<open>mapX\<close> and \<open>mapY\<close> in \<open>[0, 23]\<close>, and the lookup \<^verbatim>\<open>grid[mapX][mapY]\<close> of the texture
  selection that follows is in bounds.
\<close>

theorem castRay_exits_inside_grid:
  assumes "gridOK grid"
  shows "\<exists>r. castRay grid rayPos rayDirX rayDirY = Some (Inr r)
    \<and> 0 \<le>s hitX r \<and> hitX r \<le>s 23 \<and> 0 \<le>s hitY r \<and> hitY r \<le>s 23
    \<and> (hitKind r = 1 \<or> hitKind r = 2)
    \<and> (\<exists>texNum. texNumOf grid (hitX r) (hitY r) (hitSide r) = Inr texNum)"
proof -
  obtain r where r: "castRay grid rayPos rayDirX rayDirY = Some (Inr r)"
    using castRay_total [OF assms] by blast
  then obtain st where ex: "ddaExit grid st" and e: "hitX r = mapX st" "hitY r = mapY st"
    "hitKind r = hit st"
    using castRay_result by blast
  have rng: "0 \<le> sint (hitX r)" "sint (hitX r) \<le> 23" "0 \<le> sint (hitY r)" "sint (hitY r) \<le> 23"
    and k: "hitKind r = 1 \<or> hitKind r = 2"
    using ex e by (auto simp add: ddaExit_def)
  have "index2 grid (hitX r) (hitY r) = Inr (grid ! nat (sint (hitX r)) ! nat (sint (hitY r)))"
    using assms rng by (intro index2_gridOK) simp_all
  then have "\<exists>texNum. texNumOf grid (hitX r) (hitY r) (hitSide r) = Inr texNum"
    by (simp add: texNumOf_def bindP_def Let_def)
  then show ?thesis using r rng k by (auto simp add: word_sle_eq)
qed

theorem castRay_exits_inside_grid_witness:
  "gridOK (wallAt 5 5)
   \<and> (\<exists>r. castRay (wallAt 5 5) \<lparr>X = Fin 22.5, Y = Fin 11.5\<rparr> (Fin (- 1)) (Fin 0.33) = Some (Inr r)
        \<and> 0 \<le>s hitX r \<and> hitX r \<le>s 23 \<and> 0 \<le>s hitY r \<and> hitY r \<le>s 23
        \<and> (hitKind r = 1 \<or> hitKind r = 2)
        \<and> (\<exists>texNum. texNumOf (wallAt 5 5) (hitX r) (hitY r) (hitSide r) = Inr texNum))"
proof -
  have ok: "gridOK (wallAt 5 5)" by (rule gridOK_wallAt) simp
  show ?thesis
    using castRay_exits_inside_grid
      [OF ok, of "\<lparr>X = Fin 22.5, Y = Fin 11.5\<rparr>" "Fin (- 1)" "Fin 0.33"] ok
    by simp
qed

text \<open>
  C10. A ray ends with a wall hit (\<open>hit = 1\<close>) only in a cell with \<open>mapX\<close> and \<open>mapY\<close>
  in \<open>[1, 23]\<close>, and the cell then holds a positive value; a ray that ends in row or
  column 0 ends with a boundary hit (\<open>hit = 2\<close>); and the test of a square whose
  \<open>mapX\<close> or \<open>mapY\<close> is 0 yields a boundary hit whatever the grid holds there, also
  when the cell is a wall.
\<close>

theorem wall_hit_never_in_row_or_column_0:
  assumes "castRay grid rayPos rayDirX rayDirY = Some (Inr r)"
    and "mapX st = 0 \<or> mapY st = 0"
  shows "(hitKind r = 1 \<longrightarrow>
            1 \<le>s hitX r \<and> hitX r \<le>s 23 \<and> 1 \<le>s hitY r \<and> hitY r \<le>s 23
            \<and> (\<exists>cell. index2 grid (hitX r) (hitY r) = Inr cell \<and> 0 <s cell))
    \<and> (hitX r = 0 \<or> hitY r = 0 \<longrightarrow> hitKind r = 2)
    \<and> ddaCheck grid st
        = Inr (st\<lparr>hit := 2, mapX := clampCell (mapX st), mapY := clampCell (mapY st)\<rparr>)"
proof -
  obtain st' where ex: "ddaExit grid st'" and e: "hitX r = mapX st'" "hitY r = mapY st'"
    "hitKind r = hit st'"
    using castRay_result [OF assms(1)] by blast
  have a: "hitKind r = 1 \<longrightarrow>
            1 \<le>s hitX r \<and> hitX r \<le>s 23 \<and> 1 \<le>s hitY r \<and> hitY r \<le>s 23
            \<and> (\<exists>cell. index2 grid (hitX r) (hitY r) = Inr cell \<and> 0 <s cell)"
    using ex e by (auto simp add: ddaExit_def word_sle_eq)
  have b: "hitX r = 0 \<or> hitY r = 0 \<longrightarrow> hitKind r = 2"
    using ex e by (auto simp add: ddaExit_def)
  have "\<not> (mapX st <s 24 \<and> mapY st <s 24 \<and> 0 <s mapX st \<and> 0 <s mapY st)"
    using assms(2) by (auto simp add: word_sless_alt)
  then have c: "ddaCheck grid st
      = Inr (st\<lparr>hit := 2, mapX := clampCell (mapX st), mapY := clampCell (mapY st)\<rparr>)"
    unfolding ddaCheck_def by (rule if_not_P)
  show ?thesis using a b c by blast
qed

lemma ray_onto_wall_at_0_11:
  "castRay (wallAt 0 11) \<lparr>X = Fin 22.5, Y = Fin 11.5\<rparr> (Fin (- 1)) (Fin 0)
     = Some (Inr \<lparr>hitX = 0, hitY = 11, hitKind = 2, hitSide = 0, perpWallDist = Fin 21.5\<rparr>)"
  by (simp add: dda_eval wallAt_def emptyGrid_def while_option_unfold)

lemma ray_onto_wall_at_5_11:
  "castRay (wallAt 5 11) \<lparr>X = Fin 22.5, Y = Fin 11.5\<rparr> (Fin (- 1)) (Fin 0)
     = Some (Inr \<lparr>hitX = 5, hitY = 11, hitKind = 1, hitSide = 0, perpWallDist = Fin 16.5\<rparr>)"
  by (simp add: dda_eval wallAt_def emptyGrid_def while_option_unfold)

theorem wall_hit_never_in_row_or_column_0_witness:
  "castRay (wallAt 5 11) \<lparr>X = Fin 22.5, Y = Fin 11.5\<rparr> (Fin (- 1)) (Fin 0)
     = Some (Inr \<lparr>hitX = 5, hitY = 11, hitKind = 1, hitSide = 0, perpWallDist = Fin 16.5\<rparr>)
   \<and> index2 (wallAt 5 11) 5 11 = Inr 1
   \<and> index2 (wallAt 0 11) 0 11 = Inr 1
   \<and> castRay (wallAt 0 11) \<lparr>X = Fin 22.5, Y = Fin 11.5\<rparr> (Fin (- 1)) (Fin 0)
     = Some (Inr \<lparr>hitX = 0, hitY = 11, hitKind = 2, hitSide = 0, perpWallDist = Fin 21.5\<rparr>)
   \<and> ddaCheck (wallAt 0 11)
        \<lparr>mapX = 0, mapY = 11, sideDistX = Fin 22.5, sideDistY = PInf, hit = 0, side = 0\<rparr>
     = Inr \<lparr>mapX = 0, mapY = 11, sideDistX = Fin 22.5, sideDistY = PInf, hit = 2, side = 0\<rparr>"
proof -
  let ?st = "\<lparr>mapX = 0, mapY = 11, sideDistX = Fin 22.5, sideDistY = PInf, hit = 0, side = 0\<rparr>"
  have st0: "mapX ?st = 0 \<or> mapY ?st = 0" by simp
  have i5: "index2 (wallAt 5 11) 5 11 = Inr 1"
    by (simp add: wallAt_def emptyGrid_def index2_def index_def inRange_def bindP_def)
  have i0: "index2 (wallAt 0 11) 0 11 = Inr 1"
    by (simp add: wallAt_def emptyGrid_def index2_def index_def inRange_def bindP_def)
  show ?thesis
    using wall_hit_never_in_row_or_column_0 [OF ray_onto_wall_at_5_11 st0]
      wall_hit_never_in_row_or_column_0 [OF ray_onto_wall_at_0_11 st0]
      ray_onto_wall_at_5_11 ray_onto_wall_at_0_11 i5 i0
    by (simp add: clampCell_def word_sless_alt)
qed

text \<open>
  C1, as the code has it. With the camera at \<open>(4.5, 4.5)\<close> facing east, the ray of
  the central column (\<open>x = 160\<close>, camera-space x exactly 0) runs along row 4 and never
  enters cell \<open>(5, 5)\<close>: it ends with a boundary hit at the forced cell \<open>(23, 4)\<close>, on an
  x side, at perpendicular distance 18.5. With the camera one row further, at
  \<open>(4.5, 5.5)\<close>, the same column hits the wall block \<open>(5, 5)\<close> on an x side at
  perpendicular distance 0.5. All values of both runs are exactly representable, so
  the exact arithmetic of the model is that of \<^verbatim>\<open>float64\<close> here.
\<close>

theorem central_column_of_scenario:
  "castColumn (testCamera \<lparr>X = Fin 4.5, Y = Fin 4.5\<rparr> \<lparr>X = Fin 1, Y = Fin 0\<rparr>) 160 (wallAt 5 5)
     = Some (Inr \<lparr>hitX = 23, hitY = 4, hitKind = 2, hitSide = 0, perpWallDist = Fin 18.5\<rparr>)
   \<and> castColumn (testCamera \<lparr>X = Fin 4.5, Y = Fin 5.5\<rparr> \<lparr>X = Fin 1, Y = Fin 0\<rparr>) 160 (wallAt 5 5)
     = Some (Inr \<lparr>hitX = 5, hitY = 5, hitKind = 1, hitSide = 0, perpWallDist = Fin 0.5\<rparr>)"
  by (simp add: castColumn_def rayDir_centre pos_testCamera)
     (simp add: dda_eval wallAt_def emptyGrid_def while_option_unfold)

text \<open>The claim as stated fails: the hit cell of the stated scenario is not
  \<open>(5, 5)\<close> and the distance is not 0.5.\<close>

theorem central_column_misses_block:
  "map_option (map_sum id (\<lambda>r. (hitX r, hitY r, hitKind r, hitSide r, perpWallDist r)))
     (castColumn (testCamera \<lparr>X = Fin 4.5, Y = Fin 4.5\<rparr> \<lparr>X = Fin 1, Y = Fin 0\<rparr>) 160
        (wallAt 5 5))
     = Some (Inr (23, 4, 2, 0, Fin 18.5))
   \<and> (23 :: goInt, 4 :: goInt) \<noteq> (5, 5) \<and> Fin 18.5 \<noteq> Fin 0.5"
  by (simp add: castColumn_def rayDir_centre pos_testCamera)
     (simp add: dda_eval wallAt_def emptyGrid_def while_option_unfold)

subsection \<open>Texture selection\<close>

text \<open>
  C6, as the code has it. On an x side (\<open>side = 0\<close>) the texture number
  \<open>max (cell - 1) 0\<close> is mapped 1 to 4, 2 to 3, 3 to 4 and 4 to 3, and every other
  number is kept: 3 and 4 change places, 1 and 2 are sent to 4 and 3 one way, and
  nothing is mapped to 1 or 2. On a y side the number is used as it is.
\<close>

theorem texNumOf_remap_table:
  assumes "index2 grid mx my = Inr cell"
  shows "texNumOf grid mx my sd =
    Inr (let t = (if cell - 1 <s 0 then 0 else cell - 1)
         in if sd = 0
            then (if t = 1 then 4 else if t = 2 then 3 else if t = 3 then 4
                  else if t = 4 then 3 else t)
            else t)"
  using assms by (simp add: texNumOf_def remapTex_def bindP_def Let_def)

theorem texNumOf_remap_table_witness:
  "index2 [[0, 2, 5]] 0 1 = Inr (2 :: goInt)
   \<and> texNumOf [[0, 2, 5]] 0 1 0 = Inr 4
   \<and> texNumOf [[0, 2, 5]] 0 1 1 = Inr 1"
proof -
  have i: "index2 [[0, 2, 5]] 0 1 = Inr (2 :: goInt)"
    by (simp add: index2_def index_def inRange_def bindP_def)
  show ?thesis
    using texNumOf_remap_table [OF i, of 0] texNumOf_remap_table [OF i, of 1] i
    by (simp add: word_sless_alt)
qed

text \<open>The claim as stated fails: texture 4 on an x side becomes 3, not 1, and
  texture 3 becomes 4, not 2, so the pairs 1, 4 and 2, 3 are not exchanged.\<close>

theorem texNumOf_is_no_swap_of_1_4:
  "texNumOf [[0, 2, 5], [0, 4, 0]] 0 2 0 = Inr 3
   \<and> texNumOf [[0, 2, 5], [0, 4, 0]] 0 2 0 \<noteq> Inr 1
   \<and> texNumOf [[0, 2, 5], [0, 4, 0]] 1 1 0 = Inr 4
   \<and> texNumOf [[0, 2, 5], [0, 4, 0]] 1 1 0 \<noteq> Inr 2"
  by (simp add: texNumOf_def remapTex_def index2_def index_def inRange_def bindP_def
      word_sless_alt)

subsection \<open>Movement\<close>












subsection \<open>Rotation\<close>







subsection \<open>The sprite caster\<close>

lemma store_Inr: "store xs i v = Inr ys \<longleftrightarrow> inRange xs i \<and> ys = xs[nat (sint i) := v]"
  by (auto simp add: store_def)

lemma index_Inr: "index xs i = Inr v \<longleftrightarrow> inRange xs i \<and> v = xs ! nat (sint i)"
  by (auto simp add: index_def)

lemma bindP_Inr: "bindP r k = Inr v \<longleftrightarrow> (\<exists>u. r = Inr u \<and> k u = Inr v)"
  by (cases r) (simp_all add: bindP_def)

lemma inRange_update [simp]: "inRange (xs[n := v]) i = inRange xs i"
  by (simp add: inRange_def)

lemma inRange_nat_eq:
  assumes "inRange xs i" "inRange xs j" "nat (sint i) = nat (sint j)"
  shows "i = j"
proof -
  have a: "0 \<le> sint i" "0 \<le> sint j" using assms(1,2) by (simp_all add: inRange_def)
  have "sint i = sint j" using a assms(3) by (metis nat_0_le)
  then show ?thesis by (rule signed_word_eqI)
qed

lemma stripeAccepted_accepted:
  assumes "stripeAccepted c p x = Inr b"
  shows "b = accepted c p x"
  using assms
  by (cases "index (zBuffer c) x")
     (auto simp add: stripeAccepted_def accepted_def bindP_def split: if_splits)

lemma stripeAccepted_cam:
  assumes "c' = c\<lparr>spriteLvls := ls\<rparr>"
  shows "stripeAccepted c' p x = stripeAccepted c p x"
  by (simp add: assms stripeAccepted_def)

lemma newLevel_unwritten: "\<not> columnWritten c (newLevel (c\<lparr>spriteLvls := ls\<rparr>)) x"
  by (auto simp add: columnWritten_def newLevel_def inRange_def)

lemma newLevel_shape: "levelShape c (newLevel (c\<lparr>spriteLvls := ls\<rparr>))"
  by (simp add: levelShape_def newLevel_def SliceView_def)

text \<open>Drawing a stripe writes at most the column of that stripe.\<close>

lemma writeStripe_writes:
  assumes "writeStripe p stripe strip t1 t2 l = Inr l'"
  shows "(levelShape c l \<longrightarrow> levelShape c l')
    \<and> (\<forall>x. columnWritten c l' x \<longrightarrow> columnWritten c l x \<or> x = stripe)"
proof -
  obtain cts currTex sv st a1 a2 a3 a4 where
    w: "store (Cts l) stripe a1 = Inr cts" "store (CurrTex l) stripe a2 = Inr currTex"
       "store (Sv l) stripe a3 = Inr sv" "store (St l) stripe a4 = Inr st"
       "l' = l\<lparr>Sv := sv, Cts := cts, St := st, CurrTex := currTex\<rparr>"
    using assms unfolding writeStripe_def by (auto simp add: bindP_Inr)
  let ?n = "nat (sint stripe)"
  have u: "cts = (Cts l)[?n := a1]" "currTex = (CurrTex l)[?n := a2]"
    "sv = (Sv l)[?n := a3]" "st = (St l)[?n := a4]" and ir: "inRange (Cts l) stripe"
    using w(1-4) by (simp_all add: store_Inr)
  have "columnWritten c l x \<or> x = stripe" if cw: "columnWritten c l' x" for x
  proof (cases "x = stripe")
    case True
    then show ?thesis by simp
  next
    case False
    have irx: "inRange (Cts l) x" using cw by (simp add: columnWritten_def w(5) u)
    have "nat (sint x) \<noteq> ?n" using inRange_nat_eq [OF irx ir] False by blast
    then show ?thesis using cw irx by (simp add: columnWritten_def w(5) u)
  qed
  moreover have "levelShape c l \<longrightarrow> levelShape c l'"
    by (simp add: levelShape_def w(5) u)
  ultimately show ?thesis by blast
qed

lemma drawStripe_cases:
  assumes "drawStripe c0 p slices stripe (Some l) = Inr r"
  shows "r = Some l \<or> (\<exists>strip t1 t2 l'. writeStripe p stripe strip t1 t2 l = Inr l' \<and> r = Some l')"
  using assms unfolding drawStripe_def Let_def
  by (auto simp add: bindP_Inr split: if_splits)

lemma drawStripe_writes:
  assumes "drawStripe c0 p slices stripe (Some l) = Inr r"
  shows "\<exists>l'. r = Some l' \<and> (levelShape c l \<longrightarrow> levelShape c l')
    \<and> (\<forall>x. columnWritten c l' x \<longrightarrow> columnWritten c l x \<or> x = stripe)"
  using drawStripe_cases [OF assms] writeStripe_writes [of p stripe _ _ _ l _ c] by blast


lemma stripesDone_succ:
  assumes lt: "stripe <s drawEndX p" and ge: "sint (drawStartX p) \<le> sint stripe"
  shows "stripesDone p (stripe + 1) k \<longleftrightarrow> stripesDone p stripe k \<or> k = stripe"
proof -
  have s1: "sint (stripe + 1) = sint stripe + 1" using lt by (rule sint_succ_below)
  have l: "sint stripe < sint (drawEndX p)" using lt by (simp add: word_sless_alt)
  have e: "k = stripe" if "sint k = sint stripe" using that by (rule signed_word_eqI)
  show ?thesis
    using s1 l ge e unfolding stripesDone_def by (cases "sint k = sint stripe") auto
qed

lemma cam_update_twice:
  assumes "c1 = c\<lparr>spriteLvls := ls1\<rparr>"
  shows "c1\<lparr>spriteLvls := ls2\<rparr> = c\<lparr>spriteLvls := ls2\<rparr>"
  by (simp add: assms)

lemma spriteStripe_rejected:
  assumes "stripeAccepted (cam st) p stripe = Inr False"
  shows "spriteStripe idx p stripe st = Inr st"
  by (simp add: spriteStripe_def assms bindP_def)

lemma spriteStripe_first:
  assumes acc: "stripeAccepted (cam st) p stripe = Inr True" and nr: "\<not> renderSprite st"
    and step: "spriteStripe idx p stripe st = Inr st'"
  shows "\<exists>lvl1. inRange (spriteLvls (cam st)) idx
    \<and> drawStripe ((cam st)\<lparr>spriteLvls := (spriteLvls (cam st))
           [nat (sint idx) := Some (newLevel (cam st))]\<rparr>) p
         (MakeSlices (texW (spriteTex p)) (texH (spriteTex p))) stripe
         (Some (newLevel (cam st))) = Inr lvl1
    \<and> renderSprite st'
    \<and> cam st' = (cam st)\<lparr>spriteLvls := (spriteLvls (cam st))[nat (sint idx) := lvl1]\<rparr>"
proof -
  let ?c1 = "(cam st)\<lparr>spriteLvls := (spriteLvls (cam st))
           [nat (sint idx) := Some (newLevel (cam st))]\<rparr>"
  have ir: "inRange (spriteLvls (cam st)) idx"
    using step acc nr
    by (cases "inRange (spriteLvls (cam st)) idx")
       (simp_all add: spriteStripe_def bindP_def makeSpriteLevel_def store_def)
  then have mk: "makeSpriteLevel (cam st) idx = Inr ?c1"
    by (simp add: makeSpriteLevel_def store_def bindP_def)
  let ?st1 = "st\<lparr>renderSprite := True,
      spriteSlices := MakeSlices (texW (spriteTex p)) (texH (spriteTex p)), cam := ?c1\<rparr>"
  have step1: "spriteStripe idx p stripe st =
      bindP (drawStripe ?c1 p (MakeSlices (texW (spriteTex p)) (texH (spriteTex p))) stripe
               (Some (newLevel (cam st)))) (\<lambda>lvl1.
      bindP (store (spriteLvls ?c1) idx lvl1) (\<lambda>ls.
      Inr (?st1\<lparr>cam := ?c1\<lparr>spriteLvls := ls\<rparr>\<rparr>)))"
    by (simp add: spriteStripe_def acc nr mk bindP_def cong: sum.case_cong)
  obtain lvl1 ls where dr: "drawStripe ?c1 p (MakeSlices (texW (spriteTex p)) (texH (spriteTex p)))
      stripe (Some (newLevel (cam st))) = Inr lvl1"
    and sto: "store (spriteLvls ?c1) idx lvl1 = Inr ls"
    and st': "st' = ?st1\<lparr>cam := ?c1\<lparr>spriteLvls := ls\<rparr>\<rparr>"
    using step unfolding step1 by (auto simp add: bindP_Inr)
  have ls: "ls = (spriteLvls (cam st))[nat (sint idx) := lvl1]"
    using sto by (simp add: store_Inr)
  show ?thesis using ir dr st' ls by auto
qed

lemma spriteStripe_later:
  assumes acc: "stripeAccepted (cam st) p stripe = Inr True" and r: "renderSprite st"
    and step: "spriteStripe idx p stripe st = Inr st'"
  shows "\<exists>lvl1. inRange (spriteLvls (cam st)) idx
    \<and> drawStripe (cam st) p (spriteSlices st) stripe (spriteLvls (cam st) ! nat (sint idx))
        = Inr lvl1
    \<and> renderSprite st'
    \<and> cam st' = (cam st)\<lparr>spriteLvls := (spriteLvls (cam st))[nat (sint idx) := lvl1]\<rparr>"
proof -
  have ir: "inRange (spriteLvls (cam st)) idx"
    using step acc r
    by (cases "inRange (spriteLvls (cam st)) idx")
       (simp_all add: spriteStripe_def bindP_def index_def)
  then have ix: "index (spriteLvls (cam st)) idx = Inr (spriteLvls (cam st) ! nat (sint idx))"
    by (simp add: index_def)
  have step1: "spriteStripe idx p stripe st =
      bindP (drawStripe (cam st) p (spriteSlices st) stripe (spriteLvls (cam st) ! nat (sint idx)))
        (\<lambda>lvl1.
      bindP (store (spriteLvls (cam st)) idx lvl1) (\<lambda>ls.
      Inr (st\<lparr>cam := (cam st)\<lparr>spriteLvls := ls\<rparr>\<rparr>)))"
    by (simp add: spriteStripe_def acc r ix bindP_def cong: sum.case_cong)
  obtain lvl1 ls where dr: "drawStripe (cam st) p (spriteSlices st) stripe
      (spriteLvls (cam st) ! nat (sint idx)) = Inr lvl1"
    and sto: "store (spriteLvls (cam st)) idx lvl1 = Inr ls"
    and st': "st' = st\<lparr>cam := (cam st)\<lparr>spriteLvls := ls\<rparr>\<rparr>"
    using step unfolding step1 by (auto simp add: bindP_Inr)
  have ls: "ls = (spriteLvls (cam st))[nat (sint idx) := lvl1]"
    using sto by (simp add: store_Inr)
  show ?thesis using ir dr st' ls r by auto
qed


lemma spriteStripe_inv:
  assumes inv: "spriteInv c idx p stripe st"
    and lt: "stripe <s drawEndX p"
    and ge: "sint (drawStartX p) \<le> sint stripe"
    and step: "spriteStripe idx p stripe st = Inr st'"
  shows "spriteInv c idx p (stripe + 1) st'"
proof -
  note ds = stripesDone_succ [OF lt ge]
  have camc: "cam st = c\<lparr>spriteLvls := spriteLvls (cam st)\<rparr>"
    using inv by (simp add: spriteInv_def)
  have rs: "renderSprite st \<longleftrightarrow> (\<exists>k. stripesDone p stripe k \<and> accepted c p k)"
    using inv by (simp add: spriteInv_def)
  obtain b where acc: "stripeAccepted (cam st) p stripe = Inr b"
    using step by (auto simp add: spriteStripe_def bindP_Inr)
  have "stripeAccepted c p stripe = Inr b"
    using acc stripeAccepted_cam [OF camc] by simp
  then have b: "b = accepted c p stripe" by (rule stripeAccepted_accepted)
  have nl: "newLevel (cam st) = newLevel (c\<lparr>spriteLvls := spriteLvls (cam st)\<rparr>)"
    using camc by simp
  show ?thesis
  proof (cases b)
    case False
    then have "st' = st" using step spriteStripe_rejected [of st p stripe idx] acc by simp
    then show ?thesis
      using inv False b unfolding spriteInv_def ds by (cases "renderSprite st") auto
  next
    case True
    have acc': "stripeAccepted (cam st) p stripe = Inr True" using acc True by simp
    have here: "stripesDone p (stripe + 1) stripe \<and> accepted c p stripe"
      using True b by (simp add: ds)
    show ?thesis
    proof (cases "renderSprite st")
      case nr: False
      obtain lvl1 where ir: "inRange (spriteLvls (cam st)) idx"
        and dr: "drawStripe ((cam st)\<lparr>spriteLvls := (spriteLvls (cam st))
             [nat (sint idx) := Some (newLevel (cam st))]\<rparr>) p
           (MakeSlices (texW (spriteTex p)) (texH (spriteTex p))) stripe
           (Some (newLevel (cam st))) = Inr lvl1"
        and r': "renderSprite st'"
        and c': "cam st' = (cam st)\<lparr>spriteLvls := (spriteLvls (cam st))[nat (sint idx) := lvl1]\<rparr>"
        using spriteStripe_first [OF acc' nr step] by blast
      have old: "spriteLvls (cam st) = spriteLvls c"
        using inv nr by (simp add: spriteInv_def)
      obtain l' where l': "lvl1 = Some l'"
        and sh: "levelShape c (newLevel (cam st)) \<longrightarrow> levelShape c l'"
        and wr: "\<forall>x. columnWritten c l' x \<longrightarrow> columnWritten c (newLevel (cam st)) x \<or> x = stripe"
        using drawStripe_writes [OF dr, of c] by blast
      have sh': "levelShape c l'"
        using sh newLevel_shape [of c "spriteLvls (cam st)"] nl by simp
      have wr': "\<forall>x. columnWritten c l' x \<longrightarrow> x = stripe"
        using wr newLevel_unwritten [of c "spriteLvls (cam st)"] nl by simp
      have c1: "cam st' = c\<lparr>spriteLvls := (spriteLvls c)[nat (sint idx) := Some l']\<rparr>"
        using c' l' old cam_update_twice [OF camc] by simp
      have "cam st' = c\<lparr>spriteLvls := spriteLvls (cam st')\<rparr>"
        "spriteLvls (cam st') = (spriteLvls c)[nat (sint idx) := Some l']"
        by (simp_all add: c1)
      moreover have "inRange (spriteLvls c) idx" using ir old by simp
      moreover note sh'
      moreover have "\<forall>x. columnWritten c l' x \<longrightarrow> accepted c p x \<and> stripesDone p (stripe + 1) x"
        using wr' here by blast
      ultimately show ?thesis using r' here unfolding spriteInv_def by auto
    next
      case r: True
      obtain l where irc: "inRange (spriteLvls c) idx"
        and cur: "spriteLvls (cam st) = (spriteLvls c)[nat (sint idx) := Some l]"
        and shl: "levelShape c l"
        and wl: "\<forall>x. columnWritten c l x \<longrightarrow> accepted c p x \<and> stripesDone p stripe x"
        using inv r unfolding spriteInv_def by auto
      have n: "nat (sint idx) < length (spriteLvls c)"
        using irc unfolding inRange_def by linarith
      have slot: "spriteLvls (cam st) ! nat (sint idx) = Some l"
        using n by (simp add: cur)
      obtain lvl1 where
        dr: "drawStripe (cam st) p (spriteSlices st) stripe (Some l) = Inr lvl1"
        and r': "renderSprite st'"
        and c': "cam st' = (cam st)\<lparr>spriteLvls := (spriteLvls (cam st))[nat (sint idx) := lvl1]\<rparr>"
        using spriteStripe_later [OF acc' r step] unfolding slot by blast
      obtain l' where l': "lvl1 = Some l'"
        and sh: "levelShape c l \<longrightarrow> levelShape c l'"
        and wr: "\<forall>x. columnWritten c l' x \<longrightarrow> columnWritten c l x \<or> x = stripe"
        using drawStripe_writes [OF dr, of c] by blast
      have sh': "levelShape c l'" using sh shl by simp
      have c1: "cam st' = c\<lparr>spriteLvls := (spriteLvls c)[nat (sint idx) := Some l']\<rparr>"
        using c' l' cur cam_update_twice [OF camc] by simp
      have "cam st' = c\<lparr>spriteLvls := spriteLvls (cam st')\<rparr>"
        "spriteLvls (cam st') = (spriteLvls c)[nat (sint idx) := Some l']"
        by (simp_all add: c1)
      moreover note sh'
      moreover have "\<forall>x. columnWritten c l' x \<longrightarrow> accepted c p x \<and> stripesDone p (stripe + 1) x"
        using wr wl here ds by blast
      ultimately show ?thesis using r' here irc unfolding spriteInv_def by auto
    qed
  qed
qed

lemma spriteLoop_inv:
  assumes "spriteLoop idx p stripe st = Inr st'"
    and "spriteInv c idx p stripe st"
    and "sint (drawStartX p) \<le> sint stripe"
  shows "\<exists>f. \<not> f <s drawEndX p \<and> spriteInv c idx p f st'"
  using assms
proof (induction idx p stripe st rule: spriteLoop.induct)
  case (1 idx p stripe st)
  show ?case
  proof (cases "stripe <s drawEndX p")
    case False
    then have "st' = st" using "1.prems"(1) by simp
    then show ?thesis using False "1.prems"(2) by blast
  next
    case True
    then obtain st1 where s1: "spriteStripe idx p stripe st = Inr st1"
      and l1: "spriteLoop idx p (stripe + 1) st1 = Inr st'"
      using "1.prems"(1) by (cases "spriteStripe idx p stripe st") simp_all
    have i1: "spriteInv c idx p (stripe + 1) st1"
      using "1.prems"(2) True "1.prems"(3) s1 by (rule spriteStripe_inv)
    have "sint (drawStartX p) \<le> sint (stripe + 1)"
      using "1.prems"(3) sint_succ_below [OF True] by simp
    then show ?thesis using "1.IH" [OF True s1 l1 i1] by blast
  qed
qed

lemma stripesDone_end:
  assumes "\<not> f <s drawEndX p"
  shows "stripesDone p f k \<longleftrightarrow> sint (drawStartX p) \<le> sint k \<and> sint k < sint (drawEndX p)"
  using assms unfolding stripesDone_def word_sless_alt by auto

text \<open>What \<^verbatim>\<open>castSprite\<close> leaves in the slot of the sprite.\<close>

lemma castSprite_slot:
  assumes pr: "projectSprite c idx = Inr p" and cs: "castSprite c idx = Inr c'"
  shows "\<exists>slot. inRange (spriteLvls c) idx
    \<and> c' = c\<lparr>spriteLvls := (spriteLvls c)[nat (sint idx) := slot]\<rparr>
    \<and> (slot \<noteq> None \<longleftrightarrow>
         (\<exists>k. sint (drawStartX p) \<le> sint k \<and> sint k < sint (drawEndX p) \<and> accepted c p k))
    \<and> (\<forall>l. slot = Some l \<longrightarrow> levelShape c l)
    \<and> (\<forall>l x. slot = Some l \<and> columnWritten c l x \<longrightarrow>
         accepted c p x \<and> sint (drawStartX p) \<le> sint x \<and> sint x < sint (drawEndX p))"
proof -
  let ?st0 = "\<lparr>renderSprite = False, spriteSlices = [], cam = c\<rparr>"
  obtain st where lp: "spriteLoop idx p (drawStartX p) ?st0 = Inr st"
    and fin: "(if \<not> renderSprite st then clearSpriteLevel (cam st) idx else Inr (cam st)) = Inr c'"
    using cs pr by (auto simp add: castSprite_def bindP_Inr)
  have i0: "spriteInv c idx p (drawStartX p) ?st0"
    by (simp add: spriteInv_def stripesDone_def)
  obtain f where f: "\<not> f <s drawEndX p" and inv: "spriteInv c idx p f st"
    using spriteLoop_inv [OF lp i0] by auto
  note de = stripesDone_end [OF f]
  have camc: "cam st = c\<lparr>spriteLvls := spriteLvls (cam st)\<rparr>"
    using inv by (simp add: spriteInv_def)
  show ?thesis
  proof (cases "renderSprite st")
    case True
    then obtain l where irc: "inRange (spriteLvls c) idx"
      and cur: "spriteLvls (cam st) = (spriteLvls c)[nat (sint idx) := Some l]"
      and shl: "levelShape c l"
      and wl: "\<forall>x. columnWritten c l x \<longrightarrow> accepted c p x \<and> stripesDone p f x"
      using inv unfolding spriteInv_def by auto
    have ex: "\<exists>k. stripesDone p f k \<and> accepted c p k"
      using inv True by (simp add: spriteInv_def)
    have "c' = cam st" using fin True by simp
    then have "c' = c\<lparr>spriteLvls := (spriteLvls c)[nat (sint idx) := Some l]\<rparr>"
      using camc cur by simp
    then show ?thesis using irc wl ex shl unfolding de by (intro exI [of _ "Some l"]) auto
  next
    case False
    then have old: "spriteLvls (cam st) = spriteLvls c"
      and nex: "\<not> (\<exists>k. stripesDone p f k \<and> accepted c p k)"
      using inv by (simp_all add: spriteInv_def)
    have cl: "clearSpriteLevel (cam st) idx = Inr c'" using fin False by simp
    then have irc: "inRange (spriteLvls c) idx"
      and c': "c' = (cam st)\<lparr>spriteLvls := (spriteLvls c)[nat (sint idx) := None]\<rparr>"
      using old by (auto simp add: clearSpriteLevel_def bindP_Inr store_Inr)
    have "c' = c\<lparr>spriteLvls := (spriteLvls c)[nat (sint idx) := None]\<rparr>"
      using c' cam_update_twice [OF camc] by simp
    then show ?thesis using irc nex unfolding de by (intro exI [of _ None]) auto
  qed
qed

lemmas sprite_eval = castSprite_def projectSprite_def spriteStripe_def stripeAccepted_def
  drawStripe_def writeStripe_def makeSpriteLevel_def clearSpriteLevel_def newLevel_def
  SliceView_def MakeSlices_def divP_def quo_def store_def
  bindP_def index_def inRange_def ofInt_def truncR_def fsub_def Let_def
  word_sless_alt word_sle_eq

lemma replicate4: "replicate 4 x = [x, x, x, x]"
  by (simp add: eval_nat_numeral)

lemma shade_at_1: "shade 255 (Fin 1) = 255"
  by (simp add: shade_def toByte_def shadeLevel_def Clamp_def shadowDepth_def lightFalloff_def
      sunLight_def ofByte_def truncR_def word_sless_alt)

lemma projectSprite_spriteCamera: "projectSprite (spriteCamera zs old) 0 = Inr spriteProj1"
  by (simp add: spriteCamera_def spriteProj1_def sprite_eval)

lemma castSprite_one_column:
  "castSprite (spriteCamera [Fin 5, Fin 5, Fin 0.5, Fin 5] None) 0
     = Inr (spriteCamera [Fin 5, Fin 5, Fin 0.5, Fin 5] (Some spriteLevel1))"
  by (simp add: castSprite_def projectSprite_spriteCamera bindP_def)
     (simp add: spriteCamera_def spriteProj1_def spriteLevel1_def sprite_eval shade_at_1
        upt_rec replicate4)

lemma castSprite_occluded:
  "castSprite (spriteCamera [Fin 0.25, Fin 0.5, Fin 0.5, Fin 0.75] (Some spriteLevel1)) 0
     = Inr (spriteCamera [Fin 0.25, Fin 0.5, Fin 0.5, Fin 0.75] None)"
  by (simp add: castSprite_def projectSprite_spriteCamera bindP_def)
     (simp add: spriteCamera_def spriteProj1_def sprite_eval)

text \<open>
  C3. A slice of the sprite is emitted at column \<open>x\<close> only if \<open>transformY > 0\<close> and
  \<open>transformY < zBuffer[x]\<close>: whenever a column of the level that \<^verbatim>\<open>castSprite\<close> leaves in
  the slot of the sprite has been written, both comparisons hold (and the column is
  inside the viewport and in range of the depth buffer). So a sprite with
  \<open>transformY \<le> 0\<close> has no written column, and a column with \<open>transformY \<ge> zBuffer[x]\<close>
  is not written.
\<close>

theorem castSprite_emits_only_in_front_and_nearer:
  assumes "projectSprite c idx = Inr p" and "castSprite c idx = Inr c'"
    and "index (spriteLvls c') idx = Inr (Some l)" and "columnWritten c l x"
  shows "flt (Fin 0) (transformY p) \<and> \<not> fle (transformY p) (Fin 0)
    \<and> 0 <s x \<and> x <s w c
    \<and> (\<exists>z. index (zBuffer c) x = Inr z \<and> flt (transformY p) z \<and> \<not> fle z (transformY p))"
proof -
  obtain slot where ir: "inRange (spriteLvls c) idx"
    and c': "c' = c\<lparr>spriteLvls := (spriteLvls c)[nat (sint idx) := slot]\<rparr>"
    and wr: "\<forall>l x. slot = Some l \<and> columnWritten c l x \<longrightarrow>
         accepted c p x \<and> sint (drawStartX p) \<le> sint x \<and> sint x < sint (drawEndX p)"
    using castSprite_slot [OF assms(1,2)] by blast
  have n: "nat (sint idx) < length (spriteLvls c)" using ir unfolding inRange_def by linarith
  have "index (spriteLvls c') idx = Inr slot"
    using ir n by (simp add: c' index_def)
  then have "slot = Some l" using assms(3) by simp
  then have a: "accepted c p x" using wr assms(4) by blast
  then obtain z where z: "index (zBuffer c) x = Inr z" "flt (transformY p) z"
    by (cases "index (zBuffer c) x") (simp_all add: accepted_def)
  have nle: "\<not> fle t (Fin 0)" if "flt (Fin 0) t" for t
    using that by (cases t) simp_all
  have nge: "\<not> fle u t" if "flt t u" for t u
    using that by (cases t; cases u) simp_all
  show ?thesis using a z nle nge by (auto simp add: accepted_def)
qed

theorem castSprite_emits_only_in_front_and_nearer_witness:
  "projectSprite (spriteCamera [Fin 5, Fin 5, Fin 0.5, Fin 5] None) 0 = Inr spriteProj1
   \<and> castSprite (spriteCamera [Fin 5, Fin 5, Fin 0.5, Fin 5] None) 0
       = Inr (spriteCamera [Fin 5, Fin 5, Fin 0.5, Fin 5] (Some spriteLevel1))
   \<and> index (spriteLvls (spriteCamera [Fin 5, Fin 5, Fin 0.5, Fin 5] (Some spriteLevel1))) 0
       = Inr (Some spriteLevel1)
   \<and> columnWritten (spriteCamera [Fin 5, Fin 5, Fin 0.5, Fin 5] None) spriteLevel1 1
   \<and> \<not> columnWritten (spriteCamera [Fin 5, Fin 5, Fin 0.5, Fin 5] None) spriteLevel1 2
   \<and> transformY spriteProj1 = Fin 1
   \<and> flt (Fin 0) (transformY spriteProj1)
   \<and> index (zBuffer (spriteCamera [Fin 5, Fin 5, Fin 0.5, Fin 5] None)) 1 = Inr (Fin 5)
   \<and> flt (transformY spriteProj1) (Fin 5)"
proof -
  let ?c = "spriteCamera [Fin 5, Fin 5, Fin 0.5, Fin 5] None"
  let ?c' = "spriteCamera [Fin 5, Fin 5, Fin 0.5, Fin 5] (Some spriteLevel1)"
  have i: "index (spriteLvls ?c') 0 = Inr (Some spriteLevel1)"
    by (simp add: spriteCamera_def index_def inRange_def)
  have cw: "columnWritten ?c spriteLevel1 1"
    by (simp add: columnWritten_def spriteLevel1_def inRange_def)
  have ncw: "\<not> columnWritten ?c spriteLevel1 2"
    by (simp add: columnWritten_def spriteLevel1_def inRange_def spriteCamera_def
        SliceView_def upt_rec)
  have z: "index (zBuffer ?c) 1 = Inr (Fin 5)"
    by (simp add: spriteCamera_def index_def inRange_def)
  have t: "transformY spriteProj1 = Fin 1" by (simp add: spriteProj1_def)
  show ?thesis
    using castSprite_emits_only_in_front_and_nearer
      [OF projectSprite_spriteCamera castSprite_one_column i cw]
      projectSprite_spriteCamera castSprite_one_column i cw ncw z t
    by simp
qed

text \<open>
  C5. After \<^verbatim>\<open>castSprite\<close> has run for a sprite, nothing of the camera has changed
  but the slot \<open>spriteLvls[idx]\<close>. The slot is not nil if and only if at least one
  stripe of the loop was accepted; otherwise it is nil, whatever it held before. When
  it is not nil it holds a level allocated in this call: it has the shape of a new
  level and differs from a new level only in columns that were accepted in this call.
\<close>

theorem castSprite_slot_fresh_iff_accepted:
  assumes "projectSprite c idx = Inr p" and "castSprite c idx = Inr c'"
  shows "\<exists>slot. index (spriteLvls c') idx = Inr slot
    \<and> c' = c\<lparr>spriteLvls := (spriteLvls c)[nat (sint idx) := slot]\<rparr>
    \<and> (slot \<noteq> None \<longleftrightarrow>
         (\<exists>k. sint (drawStartX p) \<le> sint k \<and> sint k < sint (drawEndX p) \<and> accepted c p k))
    \<and> (\<forall>l. slot = Some l \<longrightarrow>
         levelShape c l \<and> (\<forall>x. columnWritten c l x \<longrightarrow> accepted c p x))"
proof -
  obtain slot where ir: "inRange (spriteLvls c) idx"
    and c': "c' = c\<lparr>spriteLvls := (spriteLvls c)[nat (sint idx) := slot]\<rparr>"
    and ne: "slot \<noteq> None \<longleftrightarrow>
         (\<exists>k. sint (drawStartX p) \<le> sint k \<and> sint k < sint (drawEndX p) \<and> accepted c p k)"
    and sh: "\<forall>l. slot = Some l \<longrightarrow> levelShape c l"
    and wr: "\<forall>l x. slot = Some l \<and> columnWritten c l x \<longrightarrow>
         accepted c p x \<and> sint (drawStartX p) \<le> sint x \<and> sint x < sint (drawEndX p)"
    using castSprite_slot [OF assms] by blast
  have n: "nat (sint idx) < length (spriteLvls c)" using ir unfolding inRange_def by linarith
  have "index (spriteLvls c') idx = Inr slot"
    using ir n by (simp add: c' index_def)
  then show ?thesis using c' ne sh wr by blast
qed

theorem castSprite_slot_fresh_iff_accepted_witness:
  "projectSprite (spriteCamera [Fin 5, Fin 5, Fin 0.5, Fin 5] None) 0 = Inr spriteProj1
   \<and> castSprite (spriteCamera [Fin 5, Fin 5, Fin 0.5, Fin 5] None) 0
       = Inr (spriteCamera [Fin 5, Fin 5, Fin 0.5, Fin 5] (Some spriteLevel1))
   \<and> accepted (spriteCamera [Fin 5, Fin 5, Fin 0.5, Fin 5] None) spriteProj1 1
   \<and> castSprite (spriteCamera [Fin 0.25, Fin 0.5, Fin 0.5, Fin 0.75] (Some spriteLevel1)) 0
       = Inr (spriteCamera [Fin 0.25, Fin 0.5, Fin 0.5, Fin 0.75] None)
   \<and> (\<exists>slot. index (spriteLvls (spriteCamera [Fin 0.25, Fin 0.5, Fin 0.5, Fin 0.75] None)) 0
         = Inr slot
       \<and> (slot \<noteq> None \<longleftrightarrow>
           (\<exists>k. sint (drawStartX spriteProj1) \<le> sint k \<and> sint k < sint (drawEndX spriteProj1)
              \<and> accepted (spriteCamera [Fin 0.25, Fin 0.5, Fin 0.5, Fin 0.75]
                   (Some spriteLevel1)) spriteProj1 k)))"
proof -
  have a: "accepted (spriteCamera [Fin 5, Fin 5, Fin 0.5, Fin 5] None) spriteProj1 1"
    by (simp add: accepted_def spriteCamera_def spriteProj1_def index_def inRange_def
        word_sless_alt)
  show ?thesis
    using castSprite_slot_fresh_iff_accepted
      [OF projectSprite_spriteCamera castSprite_occluded]
      projectSprite_spriteCamera castSprite_one_column castSprite_occluded a
    by auto
qed

subsection \<open>The sprite sorter\<close>

lemma flt_asym: "flt a b \<Longrightarrow> \<not> flt b a"
  by (cases a; cases b) simp_all

lemma fle_trans: "fle a b \<Longrightarrow> fle b c \<Longrightarrow> fle a c"
  by (cases a; cases b; cases c) simp_all

lemma not_flt_fle: "\<not> isNaN a \<Longrightarrow> \<not> isNaN b \<Longrightarrow> \<not> flt a b \<Longrightarrow> fle b a"
  by (cases a; cases b) simp_all

lemma inversions_append_swap:
  assumes "flt x y"
  shows "inversions (as @ y # x # bs) < inversions (as @ x # y # bs)"
proof (induction as)
  case Nil
  have "\<not> flt y x" using assms by (rule flt_asym)
  then show ?case using assms by simp
next
  case (Cons a as)
  have "length (filter (flt a) (as @ y # x # bs)) = length (filter (flt a) (as @ x # y # bs))"
    by simp
  then show ?case using Cons by simp
qed

lemma swap_adjacent:
  assumes "Suc i < length xs"
  shows "xs = take i xs @ xs ! i # xs ! Suc i # drop (Suc (Suc i)) xs"
    and "xs[i := xs ! Suc i, Suc i := xs ! i]
           = take i xs @ xs ! Suc i # xs ! i # drop (Suc (Suc i)) xs"
proof -
  have i: "i < length xs" using assms by simp
  show a: "xs = take i xs @ xs ! i # xs ! Suc i # drop (Suc (Suc i)) xs"
    using assms i by (simp add: Cons_nth_drop_Suc)
  have l: "length (take i xs) = i" using i by simp
  have "xs[i := xs ! Suc i, Suc i := xs ! i]
      = (take i xs @ xs ! i # xs ! Suc i # drop (Suc (Suc i)) xs)[i := xs ! Suc i, Suc i := xs ! i]"
    using a by simp
  also have "\<dots> = take i xs @ xs ! Suc i # xs ! i # drop (Suc (Suc i)) xs"
    using l by (simp add: list_update_append)
  finally show "xs[i := xs ! Suc i, Suc i := xs ! i]
           = take i xs @ xs ! Suc i # xs ! i # drop (Suc (Suc i)) xs" .
qed

lemma inversions_swap:
  assumes "Suc i < length xs" and "flt (xs ! i) (xs ! Suc i)"
  shows "inversions (xs[i := xs ! Suc i, Suc i := xs ! i]) < inversions xs"
proof -
  have "inversions (take i xs @ xs ! Suc i # xs ! i # drop (Suc (Suc i)) xs)
      < inversions (take i xs @ xs ! i # xs ! Suc i # drop (Suc (Suc i)) xs)"
    using assms(2) by (rule inversions_append_swap)
  then show ?thesis using swap_adjacent [OF assms(1)] by simp
qed


lemma sint_of_int_fits:
  "- (2 ^ 63) \<le> k \<Longrightarrow> k < 2 ^ 63 \<Longrightarrow> sint (word_of_int k :: goInt) = k"
  by (simp add: sint_sbintrunc' signed_take_bit_int_eq_self)

lemma sint_add_fits:
  assumes "0 \<le> sint (a::goInt)" "0 \<le> sint b" "sint a + sint b < 2 ^ 63"
  shows "sint (a + b) = sint a + sint b"
  using assms by (simp add: sint_word_add signed_take_bit_int_eq_self)

lemma sint_diff_fits:
  assumes "0 \<le> sint (b::goInt)" "sint b \<le> sint a"
  shows "sint (a - b) = sint a - sint b"
proof -
  have "sint a < 2 ^ 63" using sint_lt [of a] by simp
  then show ?thesis using assms by (simp add: sint_word_diff signed_take_bit_int_eq_self)
qed

lemma sint_times10:
  assumes "0 \<le> sint (a::goInt)" "sint a * 10 < 2 ^ 63"
  shows "sint (a * 10) = sint a * 10"
  using assms by (simp add: sint_word_mult signed_take_bit_int_eq_self)

lemma word_eq_sint: "(a::goInt) = b \<longleftrightarrow> sint a = sint b"
  by (auto intro: signed_word_eqI)

lemma sint_quo13:
  assumes "0 \<le> sint (a::goInt)"
  shows "sint (quo a 13) = sint a div 13"
proof -
  have u: "sint a < 2 ^ 63" using sint_lt [of a] by simp
  have d: "sint a div 13 \<le> sint a" "0 \<le> sint a div 13" using assms by simp_all
  have e: "sgn (sint a) * sgn (sint (13::goInt)) * (\<bar>sint a\<bar> div \<bar>sint (13::goInt)\<bar>)
      = sint a div 13"
    using assms by (cases "sint a = 0") (simp_all add: sgn_if)
  have "quo a 13 = word_of_int (sint a div 13)"
    unfolding quo_def by (simp only: e)
  then show ?thesis using d u by (simp add: sint_of_int_fits)
qed

lemma combGap_1: "combGap 1 = 1"
  by (simp add: combGap_def quo_def word_sless_alt)

lemma combGap_shrinks:
  assumes "2 \<le> sint gap" "sint gap * 10 < 2 ^ 63"
  shows "1 \<le> sint (combGap gap) \<and> sint (combGap gap) < sint gap"
proof -
  define q where "q = quo (gap * 10) 13"
  have g0: "0 \<le> sint gap" using assms(1) by simp
  have m: "sint (gap * 10) = sint gap * 10" using g0 assms(2) by (rule sint_times10)
  have q: "sint q = sint gap * 10 div 13"
    using sint_quo13 [of "gap * 10"] m g0 by (simp add: q_def)
  have kl: "sint q < sint gap" "0 \<le> sint q" using assms(1) unfolding q by simp_all
  have k9: "12 \<le> sint gap" if "9 \<le> sint q" using that unfolding q by simp
  have c: "combGap gap = (if sint q = 9 \<or> sint q = 10 then 11 else if sint q < 1 then 1 else q)"
    unfolding combGap_def Let_def q_def [symmetric]
    by (simp add: word_eq_sint word_sless_alt)
  show ?thesis using kl k9 assms(1) unfolding c by auto
qed


lemma combPass_props:
  assumes "passPre amount gap i st"
  shows "\<exists>st'. combPass amount gap i st = Inr st' \<and> passOK gap i st st'"
  using assms
proof (induction amount gap i st rule: combPass.induct)
  case (1 amount gap i order ds swapped)
  let ?n = "length ds"
  have pre: "sint amount = int ?n" "length order = ?n" "1 \<le> sint gap" "sint gap \<le> int ?n"
    "0 \<le> sint i"
    using "1.prems" by (simp_all add: passPre_def)
  have ag: "sint (amount - gap) = int ?n - sint gap"
    using sint_diff_fits [of gap amount] pre by simp
  show ?case
  proof (cases "i <s amount - gap")
    case False
    then have r: "combPass amount gap i (order, ds, swapped) = Inr (order, ds, swapped)"
      by (subst combPass.simps) simp
    have "int ?n - sint gap \<le> sint i" using False ag by (simp add: word_sless_alt)
    then have "\<not> (nat (sint i) \<le> k \<and> k + nat (sint gap) < ?n)" for k
      using pre by linarith
    then have "passOK gap i (order, ds, swapped) (order, ds, swapped)"
      unfolding passOK_def by auto
    then show ?thesis using r by simp
  next
    case True
    have il: "sint i < int ?n - sint gap" using True ag by (simp add: word_sless_alt)
    have am: "sint amount < 2 ^ 63" using sint_lt [of amount] by simp
    have ij: "sint (i + gap) = sint i + sint gap"
      using sint_add_fits [of i gap] pre il am by simp
    have i1: "sint (i + 1) = sint i + 1" using True by (rule sint_succ_below)
    define ni where "ni = nat (sint i)"
    define ng where "ng = nat (sint gap)"
    have nj: "nat (sint (i + gap)) = ni + ng" using ij pre by (simp add: ni_def ng_def nat_add_distrib)
    have n1: "nat (sint (i + 1)) = Suc ni" using i1 pre by (simp add: ni_def nat_add_distrib)
    have lj: "ni + ng < ?n" using il pre unfolding ni_def ng_def by linarith
    have li: "ni < ?n" using lj by simp
    have ri: "inRange ds i" "inRange order i" "inRange ds (i + gap)" "inRange order (i + gap)"
      using pre il ij by (simp_all add: inRange_def)
    have ix: "index ds i = Inr (ds ! ni)" "index ds (i + gap) = Inr (ds ! (ni + ng))"
      "index order i = Inr (order ! ni)" "index order (i + gap) = Inr (order ! (ni + ng))"
      using ri nj by (simp_all add: index_def ni_def)
    show ?thesis
    proof (cases "flt (ds ! ni) (ds ! (ni + ng))")
      case f: False
      have p1: "passPre amount gap (i + 1) (order, ds, swapped)"
        using pre i1 by (simp add: passPre_def)
      obtain st' where r1: "combPass amount gap (i + 1) (order, ds, swapped) = Inr st'"
        and ok1: "passOK gap (i + 1) (order, ds, swapped) st'"
        using "1.IH"(2) [OF True ix(1) ix(2) f p1] by blast
      have r: "combPass amount gap i (order, ds, swapped) = Inr st'"
        by (subst combPass.simps) (simp add: True ix f r1 del: combPass.simps)
      obtain order' ds' sw' where st': "st' = (order', ds', sw')" by (cases st') auto
      have ext: "\<not> flt (ds ! k) (ds ! (k + ng))"
        if a: "\<forall>k. Suc ni \<le> k \<and> k + ng < ?n \<longrightarrow> \<not> flt (ds ! k) (ds ! (k + ng))"
          and b: "ni \<le> k" "k + ng < ?n" for k
        using a b f by (cases "k = ni") auto
      have "passOK gap i (order, ds, swapped) st'"
        using ok1 ext unfolding passOK_def st' n1 ni_def [symmetric] ng_def [symmetric]
        by auto
      then show ?thesis using r by simp
    next
      case f: True
      let ?o = "order[ni := order ! (ni + ng), ni + ng := order ! ni]"
      let ?d = "ds[ni := ds ! (ni + ng), ni + ng := ds ! ni]"
      have p1: "passPre amount gap (i + 1) (?o, ?d, True)"
        using pre i1 by (simp add: passPre_def)
      have ih: "\<exists>st'. combPass amount gap (i + 1) (?o, ?d, True) = Inr st'
          \<and> passOK gap (i + 1) (?o, ?d, True) st'"
        using "1.IH"(1) [OF True ix(1) ix(2) f ix(4) ix(3)] p1
        unfolding nj ni_def [symmetric] by blast
      then obtain st' where r1: "combPass amount gap (i + 1) (?o, ?d, True) = Inr st'"
        and ok1: "passOK gap (i + 1) (?o, ?d, True) st'"
        by blast
      have r: "combPass amount gap i (order, ds, swapped) = Inr st'"
        by (subst combPass.simps)
           (simp add: True ix f r1 nj ni_def [symmetric] del: combPass.simps)
      obtain order' ds' sw' where st': "st' = (order', ds', sw')" by (cases st') auto
      have z: "zip ?o ?d = (zip order ds)[ni := zip order ds ! (ni + ng),
          ni + ng := zip order ds ! ni]"
        using lj li pre by (simp add: zip_update)
      have ms: "mset (zip ?o ?d) = mset (zip order ds)"
        unfolding z using lj li pre by (intro mset_swap) simp_all
      have iv: "inversions ?d < inversions ds" if "gap = 1"
      proof -
        have "ng = 1" using that by (simp add: ng_def)
        then show ?thesis using inversions_swap [of ni ds] lj f by simp
      qed
      have "passOK gap i (order, ds, swapped) st'"
        using ok1 ms iv unfolding passOK_def st' by auto
      then show ?thesis using r by simp
    qed
  qed
qed


lemma mset_zip_snd:
  assumes "mset (zip xs ys) = mset (zip xs0 ys0)" "length xs = length ys" "length xs0 = length ys0"
  shows "mset ys = mset ys0"
proof -
  have "mset (map snd (zip xs ys)) = mset (map snd (zip xs0 ys0))"
    using assms(1) by (metis mset_map)
  then show ?thesis using assms(2,3) by simp
qed

lemma sortedDesc_adjacent:
  assumes nn: "\<forall>d \<in> set ds. \<not> isNaN d"
    and adj: "\<forall>k. k + 1 < length ds \<longrightarrow> \<not> flt (ds ! k) (ds ! (k + 1))"
  shows "sortedDesc ds"
proof -
  have tr: "transp (\<lambda>a b. fle b a)"
    by (rule transpI) (blast intro: fle_trans)
  have "fle (ds ! Suc k) (ds ! k)" if "Suc k < length ds" for k
  proof -
    have "\<not> isNaN (ds ! k)" "\<not> isNaN (ds ! Suc k)" using nn that by simp_all
    moreover have "\<not> flt (ds ! k) (ds ! Suc k)" using adj that by simp
    ultimately show ?thesis by (rule not_flt_fle)
  qed
  then have "sorted_wrt (\<lambda>a b. fle b a) ds"
    by (simp add: sorted_wrt_iff_nth_Suc_transp [OF tr])
  then show ?thesis
    unfolding sortedDesc_def by (simp add: sorted_wrt_iff_nth_less)
qed

lemma combRound_props:
  assumes inv: "combInv order0 ds0 (Inr st)" and run: "combRunning (Inr st)"
    and l0: "length order0 = length ds0"
    and amt: "sint amount = int (length ds0)"
    and small: "int (length ds0) * 10 < 2 ^ 63"
    and nn: "\<forall>d \<in> set ds0. \<not> isNaN d"
  shows "\<exists>st'. combRound amount st = Inr st' \<and> combInv order0 ds0 (Inr st')
    \<and> (combMeasure (Inr st'), combMeasure (Inr st)) \<in> less_than <*lex*> less_than"
proof -
  obtain gap sw order ds where st: "st = (gap, sw, order, ds)" by (cases st) auto
  have i: "length ds = length ds0" "length order = length ds0"
    "mset (zip order ds) = mset (zip order0 ds0)" "sint gap \<le> int (length ds0)"
    "sw \<longrightarrow> 1 \<le> sint gap"
    using inv by (simp_all add: combInv_def st)
  have g1: "1 \<le> sint gap" using run i(5) by (auto simp add: combRunning_def st word_sless_alt)
  define g where "g = combGap gap"
  have g: "1 \<le> sint g" "sint g \<le> sint gap" "sint gap = 1 \<longrightarrow> g = 1"
    "2 \<le> sint gap \<longrightarrow> sint g < sint gap"
  proof -
    have "gap = 1" if "sint gap = 1"
      unfolding word_eq_sint [of gap 1] using that by simp
    then show "sint gap = 1 \<longrightarrow> g = 1"
      using combGap_1 by (auto simp add: g_def)
    then show "1 \<le> sint g" "sint g \<le> sint gap" "2 \<le> sint gap \<longrightarrow> sint g < sint gap"
      using combGap_shrinks [of gap] g1 i(4) small unfolding g_def [symmetric]
      by (cases "sint gap = 1"; force)+
  qed
  have pre: "passPre amount g 0 (order, ds, False)"
    using i g amt by (simp add: passPre_def)
  obtain order' ds' sw' where r: "combPass amount g 0 (order, ds, False) = Inr (order', ds', sw')"
    and ok: "passOK g 0 (order, ds, False) (order', ds', sw')"
    using combPass_props [OF pre] by (metis prod_cases3)
  have rd: "combRound amount st = Inr (g, sw', order', ds')"
    by (simp add: combRound_def st g_def [symmetric] r bindP_def del: combPass.simps)
  have o: "length ds' = length ds" "length order' = length order"
    "mset (zip order' ds') = mset (zip order ds)"
    using ok by (simp_all add: passOK_def)
  have srt: "sortedDesc ds'" if "\<not> sw'" "sint g \<le> 1"
  proof -
    have g1': "g = 1" using that(2) g(1) by (simp add: word_eq_sint)
    have e: "ds' = ds" and adj: "\<forall>k. k + 1 < length ds \<longrightarrow> \<not> flt (ds ! k) (ds ! (k + 1))"
      using ok that(1) by (simp_all add: passOK_def g1')
    have "mset ds = mset ds0" using mset_zip_snd [OF i(3)] i l0 by simp
    then have "set ds = set ds0" by (rule mset_eq_setD)
    then show ?thesis using sortedDesc_adjacent [of ds] nn adj e by simp
  qed
  have inv': "combInv order0 ds0 (Inr (g, sw', order', ds'))"
    using i o g srt by (auto simp add: combInv_def)
  have ms: "(combMeasure (Inr (g, sw', order', ds')), combMeasure (Inr st))
      \<in> less_than <*lex*> less_than"
  proof (cases "2 \<le> sint gap")
    case True
    then have "nat (sint g) < nat (sint gap)" using g by simp
    then show ?thesis by (simp add: combMeasure_def st)
  next
    case False
    then have e: "sint gap = 1" using g1 by simp
    then have g1': "g = 1" using g(3) by simp
    have sw: sw using run e by (simp add: combRunning_def st word_sless_alt)
    have "inversions ds' \<le> inversions ds" "sw' \<longrightarrow> inversions ds' < inversions ds"
      using ok by (simp_all add: passOK_def g1')
    then have "inversions ds' + (if sw' then 1 else 0) < inversions ds + 1" by auto
    then show ?thesis using e g1' sw by (simp add: combMeasure_def st)
  qed
  show ?thesis using rd inv' ms by blast
qed

lemma combSort_loop:
  assumes l0: "length order = length ds"
    and amt: "sint amount = int (length ds)"
    and small: "int (length ds) * 10 < 2 ^ 63"
    and nn: "\<forall>d \<in> set ds. \<not> isNaN d"
  shows "\<exists>t. while_option combRunning (\<lambda>r. bindP r (combRound amount))
             (Inr (amount, False, order, ds)) = Some t
           \<and> combInv order ds t \<and> \<not> combRunning t"
proof -
  let ?c = "\<lambda>r. bindP r (combRound amount)"
  let ?s0 = "Inr (amount, False, order, ds) :: panic + goInt \<times> bool \<times> goInt list \<times> float64 list"
  have step: "combInv order ds (?c r) \<and> (combMeasure (?c r), combMeasure r)
      \<in> less_than <*lex*> less_than"
    if ci: "combInv order ds r" and cr: "combRunning r" for r
  proof -
    obtain st where r: "r = Inr st" using ci by (cases r) (simp_all add: combInv_def)
    show ?thesis
      using combRound_props [OF ci [unfolded r] cr [unfolded r] l0 amt small nn]
      by (auto simp add: r bindP_def)
  qed
  have sd0: "sortedDesc ds" if "int (length ds) \<le> 1"
    using that unfolding sortedDesc_def by auto
  have init: "combInv order ds ?s0"
    using l0 amt sd0 by (simp add: combInv_def)
  have "{(t, r). (combInv order ds r \<and> combRunning r) \<and> t = ?c r}
      \<subseteq> inv_image (less_than <*lex*> less_than) combMeasure"
    using step by (auto simp add: inv_image_def)
  then have wf: "wf {(t, r). (combInv order ds r \<and> combRunning r) \<and> t = ?c r}"
    by (rule wf_subset [rotated]) (simp add: wf_lex_prod)
  have inv: "combInv order ds (?c r)" if "combInv order ds r \<and> combRunning r" for r
    using step that by blast
  obtain t where t: "while_option combRunning ?c ?s0 = Some t"
    using wf_while_option_Some [OF wf inv init] by blast
  have "combInv order ds t"
    by (rule while_option_rule [where P = "combInv order ds", OF _ t init]) (simp add: step)
  moreover have "\<not> combRunning t" using t by (rule while_option_stop)
  ultimately show ?thesis using t by blast
qed


lemma zip_nth_source:
  assumes m: "mset (zip xs' ys') = mset (zip xs ys)"
    and l': "length xs' = length ys'" and i: "i < length ys'"
  shows "\<exists>k. k < length xs \<and> k < length ys \<and> xs' ! i = xs ! k \<and> ys' ! i = ys ! k"
proof -
  have "(xs' ! i, ys' ! i) \<in> set (zip xs' ys')"
    using l' i by (auto simp add: set_zip)
  then have "(xs' ! i, ys' ! i) \<in> set (zip xs ys)"
    using m by (metis set_mset_mset)
  then show ?thesis by (auto simp add: set_zip)
qed

lemma combSort_three:
  "combSort [0, 1, 2] [Fin 1, Fin 9, Fin 4] 3 = Some (Inr ([1, 2, 0], [Fin 9, Fin 4, Fin 1]))"
  by (simp add: combSort_def combRound_def combRunning_def combGap_def quo_def bindP_def
      index_def inRange_def word_sless_alt while_option_unfold)

text \<open>
  C4. For an order array and a distance array of the same length n, with
  \<^verbatim>\<open>amount\<close> = n, \<^verbatim>\<open>combSort\<close> terminates without a panic; on exit the
  two arrays have kept their length, the pairs (order[i], dist[i]) are a
  permutation of the pairs at entry, and the distance array is in non-increasing
  order: for all i < j, dist[j] <= dist[i].  When the order array at entry is the
  identity (as \<^verbatim>\<open>raycast\<close> fills it), dist[i] at exit is the distance at entry
  of sprite order[i].  The distances are numbers (no NaN), and 10 * n fits the
  64-bit \<^verbatim>\<open>int\<close> (the shrink step computes \<^verbatim>\<open>gap * 10\<close>).
\<close>

theorem combSort_sorts_descending:
  assumes l0: "length order = length ds"
    and amt: "sint amount = int (length ds)"
    and small: "int (length ds) * 10 < 2 ^ 63"
    and nn: "\<forall>d \<in> set ds. \<not> isNaN d"
  shows "\<exists>order' ds'. combSort order ds amount = Some (Inr (order', ds'))
    \<and> length order' = length ds \<and> length ds' = length ds
    \<and> mset (zip order' ds') = mset (zip order ds)
    \<and> (\<forall>i j. i < j \<and> j < length ds' \<longrightarrow> fle (ds' ! j) (ds' ! i))
    \<and> ((\<forall>k < length ds. order ! k = word_of_nat k)
        \<longrightarrow> (\<forall>i < length ds. ds' ! i = ds ! nat (sint (order' ! i))))"
proof -
  obtain t where w: "while_option combRunning (\<lambda>r. bindP r (combRound amount))
      (Inr (amount, False, order, ds)) = Some t"
    and inv: "combInv order ds t" and stop: "\<not> combRunning t"
    using combSort_loop [OF l0 amt small nn] by blast
  obtain gap sw order' ds' where t: "t = Inr (gap, sw, order', ds')"
    using inv by (cases t) (auto simp add: combInv_def)
  have st: "\<not> sw" "sint gap \<le> 1"
    using stop by (simp_all add: combRunning_def t word_sless_alt)
  have i: "length ds' = length ds" "length order' = length ds"
    "mset (zip order' ds') = mset (zip order ds)" "sortedDesc ds'"
    using inv st by (simp_all add: combInv_def t)
  have r: "combSort order ds amount = Some (Inr (order', ds'))"
    unfolding combSort_def w by (simp add: t bindP_def)
  have idt: "ds' ! j = ds ! nat (sint (order' ! j))"
    if o: "\<forall>k < length ds. order ! k = word_of_nat k" and j: "j < length ds" for j
  proof -
    obtain k where k: "k < length ds" "order' ! j = order ! k" "ds' ! j = ds ! k"
      using zip_nth_source [OF i(3), of j] i(1,2) j by auto
    have "int k < 2 ^ 63" using k(1) small by linarith
    then have "sint (word_of_nat k :: goInt) = int k"
      using sint_of_int_fits [of "int k"] by simp
    then show ?thesis using k o by simp
  qed
  show ?thesis
    using r i idt unfolding sortedDesc_def by blast
qed

theorem combSort_sorts_descending_witness:
  "length [0, 1, 2 :: goInt] = length [Fin 1, Fin 9, Fin 4]
   \<and> sint (3 :: goInt) = int (length [Fin 1, Fin 9, Fin 4])
   \<and> combSort [0, 1, 2] [Fin 1, Fin 9, Fin 4] 3
       = Some (Inr ([1, 2, 0], [Fin 9, Fin 4, Fin 1]))
   \<and> (\<exists>order' ds'. combSort [0, 1, 2] [Fin 1, Fin 9, Fin 4] 3 = Some (Inr (order', ds'))
       \<and> mset (zip order' ds') = mset (zip [0, 1, 2] [Fin 1, Fin 9, Fin 4])
       \<and> fle (ds' ! 2) (ds' ! 1) \<and> fle (ds' ! 1) (ds' ! 0)
       \<and> ds' ! 0 = [Fin 1, Fin 9, Fin 4] ! nat (sint (order' ! 0)))"
proof -
  have h: "length [0, 1, 2 :: goInt] = length [Fin 1, Fin 9, Fin 4]"
    "sint (3 :: goInt) = int (length [Fin 1, Fin 9, Fin 4])"
    "int (length [Fin 1, Fin 9, Fin 4]) * 10 < 2 ^ 63"
    "\<forall>d \<in> set [Fin 1, Fin 9, Fin 4]. \<not> isNaN d"
    by simp_all
  have idt: "\<forall>k < length [Fin 1, Fin 9, Fin 4]. [0, 1, 2 :: goInt] ! k = word_of_nat k"
    by (simp add: less_Suc_eq)
  obtain order' ds' where r: "combSort [0, 1, 2] [Fin 1, Fin 9, Fin 4] 3 = Some (Inr (order', ds'))"
    and l: "length ds' = length [Fin 1, Fin 9, Fin 4]"
    and m: "mset (zip order' ds') = mset (zip [0, 1, 2] [Fin 1, Fin 9, Fin 4])"
    and srt: "\<forall>i j. i < j \<and> j < length ds' \<longrightarrow> fle (ds' ! j) (ds' ! i)"
    and pr: "(\<forall>k < length [Fin 1, Fin 9, Fin 4]. [0, 1, 2 :: goInt] ! k = word_of_nat k)
        \<longrightarrow> (\<forall>i < length [Fin 1, Fin 9, Fin 4].
              ds' ! i = [Fin 1, Fin 9, Fin 4] ! nat (sint (order' ! i)))"
    using combSort_sorts_descending [OF h] by blast
  have "fle (ds' ! 2) (ds' ! 1)" "fle (ds' ! 1) (ds' ! 0)"
    using srt l by simp_all
  moreover have "ds' ! 0 = [Fin 1, Fin 9, Fin 4] ! nat (sint (order' ! 0))"
    using pr idt by simp
  ultimately show ?thesis using h(1,2) combSort_three r m by blast
qed

text \<open>With a NaN among the distances every comparison against it is false, and
  the array can stay out of order.\<close>

lemma combSort_with_NaN:
  "combSort [0, 1, 2] [NaN, Fin 1, Fin 2] 3 = Some (Inr ([0, 2, 1], [NaN, Fin 2, Fin 1]))"
  by (simp add: combSort_def combRound_def combRunning_def combGap_def quo_def bindP_def
      index_def inRange_def word_sless_alt while_option_unfold)


end
